theory Spec2Isabelle
  imports Complex_Main
begin

section \<open>The GAP coreference scorer\<close>

text \<open>
  A shallow embedding of \<^verbatim>\<open>constants.py\<close> and \<^verbatim>\<open>gap_scorer.py\<close>.
  Python's \<^verbatim>\<open>None\<close> is \<open>None\<close> of an option type, Python integers are
  \<open>int\<close>, and Python floats are idealised as exact real numbers: rounding and the
  range of a binary float are not modelled.
  Text written by \<^verbatim>\<open>print\<close> is a list of lines returned next to the result.
\<close>

subsection \<open>constants.py\<close>

datatype Gender = UNKNOWN | MASCULINE | FEMININE

definition PRONOUNS :: "(string \<times> Gender) list" where
  "PRONOUNS =
     [(''she'', FEMININE), (''her'', FEMININE), (''hers'', FEMININE),
      (''he'', MASCULINE), (''his'', MASCULINE), (''him'', MASCULINE)]"

definition GOLD_FIELDNAMES :: "string list" where
  "GOLD_FIELDNAMES =
     [''ID'', ''Text'', ''Pronoun'', ''Pronoun-offset'', ''A'', ''A-offset'', ''A-coref'',
      ''B'', ''B-offset'', ''B-coref'', ''URL'']"

definition SYSTEM_FIELDNAMES :: "string list" where
  "SYSTEM_FIELDNAMES = [''ID'', ''A-coref'', ''B-coref'']"

subsection \<open>Annotation and Scores\<close>

record Annotation =
  gender :: "Gender option"
  name_a_coref :: "bool option"
  name_b_coref :: "bool option"

text \<open>\<^verbatim>\<open>Annotation()\<close>: every attribute starts as \<^verbatim>\<open>None\<close>.\<close>

definition new_Annotation :: Annotation where
  "new_Annotation = \<lparr>gender = None, name_a_coref = None, name_b_coref = None\<rparr>"

record Scores =
  true_positives :: int
  false_positives :: int
  true_negatives :: int
  false_negatives :: int

text \<open>\<^verbatim>\<open>Scores()\<close>: every tally starts at zero.\<close>

definition new_Scores :: Scores where
  "new_Scores =
     \<lparr>true_positives = 0, false_positives = 0, true_negatives = 0, false_negatives = 0\<rparr>"

subsection \<open>Exceptions\<close>

text \<open>
  An exception is a value: a function that can raise returns \<open>error + 'a\<close>, with
  \<open>Inl\<close> for the exception. The \<^verbatim>\<open>OverflowError\<close> of float arithmetic is not among
  them, floats being taken over the reals.
\<close>

datatype error = AssertionError | AttributeError | KeyError | ZeroDivisionError

text \<open>True division \<^verbatim>\<open>x / y\<close> raises on a zero divisor.\<close>

definition truediv :: "real \<Rightarrow> real \<Rightarrow> error + real" where
  "truediv x y = (if y = 0 then Inl ZeroDivisionError else Inr (x / y))"

subsection \<open>The metrics of a Scores object\<close>

text \<open>
  \<^verbatim>\<open>x if denominator else 0.0\<close> evaluates \<^verbatim>\<open>x\<close> only when the denominator is
  nonzero; true division is in force (\<^verbatim>\<open>from __future__ import division\<close>).

  The quotients are taken over the reals. What a binary float does beyond that is outside
  these definitions: \<^verbatim>\<open>100.0 * numerator\<close> raising \<^verbatim>\<open>OverflowError\<close> for an \<^verbatim>\<open>int\<close> too
  large for a float, a product that overflows to \<^verbatim>\<open>inf\<close> (and then \<^verbatim>\<open>nan\<close> in
  \<^verbatim>\<open>f1\<close>), and the rounding of each operation. Nothing below is stated about the
  magnitude of a metric; the definitions serve the control flow and the layout of the
  scorecard.
\<close>

definition recall :: "Scores \<Rightarrow> error + real" where
  "recall s =
     (let numerator = true_positives s;
          denominator = true_positives s + false_negatives s
      in if denominator \<noteq> 0
         then truediv (100 * real_of_int numerator) (real_of_int denominator)
         else Inr 0)"

definition precision :: "Scores \<Rightarrow> error + real" where
  "precision s =
     (let numerator = true_positives s;
          denominator = true_positives s + false_positives s
      in if denominator \<noteq> 0
         then truediv (100 * real_of_int numerator) (real_of_int denominator)
         else Inr 0)"

definition f1 :: "Scores \<Rightarrow> error + real" where
  "f1 s =
     (case recall s of
        Inl e \<Rightarrow> Inl e
      | Inr r \<Rightarrow>
          (case precision s of
             Inl e \<Rightarrow> Inl e
           | Inr p \<Rightarrow>
               (let numerator = 2 * p * r;
                    denominator = p + r
                in if denominator \<noteq> 0 then truediv numerator denominator else Inr 0)))"

subsection \<open>calculate\_scores\<close>

text \<open>
  Both annotation dictionaries are \<^verbatim>\<open>defaultdict(Annotation)\<close> objects built by
  \<^verbatim>\<open>read_annotations\<close>: an association list of distinct keys in insertion order.
  Reading a missing key stores and returns a fresh \<^verbatim>\<open>Annotation()\<close>, so a lookup
  returns the dictionary as well. Iterating a dictionary follows the list; Python 2 fixes
  no order, and the tallies are sums that do not depend on it.
\<close>

type_synonym annotations = "(string \<times> Annotation) list"

definition contains :: "annotations \<Rightarrow> string \<Rightarrow> bool" where
  "contains d k = (map_of d k \<noteq> None)"

definition getitem :: "annotations \<Rightarrow> string \<Rightarrow> Annotation \<times> annotations" where
  "getitem d k =
     (case map_of d k of
        Some v \<Rightarrow> (v, d)
      | None \<Rightarrow> (new_Annotation, d @ [(k, new_Annotation)]))"

text \<open>The truth value Python gives to a judgment: \<^verbatim>\<open>None\<close> and \<^verbatim>\<open>False\<close> are false.\<close>

definition truthy :: "bool option \<Rightarrow> bool" where
  "truthy v = (case v of None \<Rightarrow> False | Some b \<Rightarrow> b)"

text \<open>
  The body of the innermost loop: the \<^verbatim>\<open>if\<close>/\<^verbatim>\<open>elif\<close> chain on one
  \<^verbatim>\<open>(gold, system)\<close> pair, applied to the tally \<^verbatim>\<open>scores[gender]\<close>. A chain
  with no \<^verbatim>\<open>else\<close> changes nothing when no test holds.
\<close>

definition score_judgment ::
  "string \<Rightarrow> bool option \<times> bool option \<Rightarrow> Scores \<Rightarrow> Scores \<times> string list" where
  "score_judgment example_id pair s =
     (let gold = fst pair; system = snd pair in
      if system = None then
        (s\<lparr>false_negatives := false_negatives s + 1\<rparr>,
         [''Missing output for '' @ example_id])
      else if truthy gold \<and> truthy system then
        (s\<lparr>true_positives := true_positives s + 1\<rparr>, [])
      else if \<not> truthy gold \<and> truthy system then
        (s\<lparr>false_positives := false_positives s + 1\<rparr>, [])
      else if \<not> truthy gold \<and> \<not> truthy system then
        (s\<lparr>true_negatives := true_negatives s + 1\<rparr>, [])
      else if truthy gold \<and> \<not> truthy system then
        (s\<lparr>false_negatives := false_negatives s + 1\<rparr>, [])
      else (s, []))"

text \<open>\<^verbatim>\<open>for (gold, system) in [name_a_annotations, name_b_annotations]\<close>\<close>

fun score_judgments ::
  "string \<Rightarrow> (bool option \<times> bool option) list \<Rightarrow> Scores \<Rightarrow> Scores \<times> string list" where
  "score_judgments example_id [] s = (s, [])"
| "score_judgments example_id (pair # pairs) s =
     (let (s1, out1) = score_judgment example_id pair s;
          (s2, out2) = score_judgments example_id pairs s1
      in (s2, out1 @ out2))"

text \<open>
  \<^verbatim>\<open>for gender in [None, gold_annotation.gender]\<close>: a key not yet in
  \<^verbatim>\<open>scores\<close> gets a fresh \<^verbatim>\<open>Scores()\<close>, then the two judgments are tallied there.
\<close>

type_synonym scores = "Gender option \<rightharpoonup> Scores"

fun score_genders ::
  "string \<Rightarrow> (bool option \<times> bool option) list \<Rightarrow> Gender option list \<Rightarrow> scores \<Rightarrow>
   scores \<times> string list" where
  "score_genders example_id pairs [] sc = (sc, [])"
| "score_genders example_id pairs (g # gs) sc =
     (let s0 = (case sc g of None \<Rightarrow> new_Scores | Some s \<Rightarrow> s);
          (s1, out1) = score_judgments example_id pairs s0;
          (sc2, out2) = score_genders example_id pairs gs (sc(g \<mapsto> s1))
      in (sc2, out1 @ out2))"

text \<open>
  \<^verbatim>\<open>for example_id, gold_annotation in gold_annotations.iteritems()\<close>. The result is
  the tallies, the system dictionary as the lookups left it, and the lines printed.
\<close>

fun score_examples ::
  "annotations \<Rightarrow> annotations \<Rightarrow> scores \<Rightarrow> scores \<times> annotations \<times> string list" where
  "score_examples [] system_annotations sc = (sc, system_annotations, [])"
| "score_examples ((example_id, gold_annotation) # rest) system_annotations sc =
     (let (system_annotation, sys1) = getitem system_annotations example_id;
          name_a_annotations = (name_a_coref gold_annotation, name_a_coref system_annotation);
          name_b_annotations = (name_b_coref gold_annotation, name_b_coref system_annotation);
          (sc1, out1) =
            score_genders example_id [name_a_annotations, name_b_annotations]
              [None, gender gold_annotation] sc;
          (sc2, sys2, out2) = score_examples rest sys1 sc1
      in (sc2, sys2, out1 @ out2))"

definition calculate_scores ::
  "annotations \<Rightarrow> annotations \<Rightarrow> scores \<times> annotations \<times> string list" where
  "calculate_scores gold_annotations system_annotations =
     score_examples gold_annotations system_annotations Map.empty"

subsection \<open>read\_annotations\<close>

text \<open>
  \<^verbatim>\<open>str.lower()\<close> of a Python 2 byte string: the letters A to Z are mapped to a to z,
  every other byte is kept.
\<close>

definition lower_char :: "char \<Rightarrow> char" where
  "lower_char c =
     (case map_of (zip ''ABCDEFGHIJKLMNOPQRSTUVWXYZ'' ''abcdefghijklmnopqrstuvwxyz'') c of
        None \<Rightarrow> c
      | Some l \<Rightarrow> l)"

definition lower :: "string \<Rightarrow> string" where
  "lower value = map lower_char value"

text \<open>
  The nested function \<^verbatim>\<open>is_true\<close>. Its argument is a field of a row, and
  \<^verbatim>\<open>None\<close> when the row is too short: \<^verbatim>\<open>None.lower()\<close> raises.
\<close>

definition is_true :: "string option \<Rightarrow> error + (bool option \<times> string list)" where
  "is_true v =
     (case v of
        None \<Rightarrow> Inl AttributeError
      | Some value \<Rightarrow>
          if lower value = ''true'' then Inr (Some True, [])
          else if lower value = ''false'' then Inr (Some False, [])
          else Inr (None, [''Unexpected label! '' @ value]))"

text \<open>
  A file is given as the rows \<^verbatim>\<open>csv.reader\<close> yields for it, each a list of fields.
  \<^verbatim>\<open>csv.DictReader\<close> pairs the field names with the fields of a row and gives the
  names beyond a short row the value \<^verbatim>\<open>None\<close>; \<^verbatim>\<open>row[key]\<close> raises for a name
  that is not a field name.
\<close>

definition row_get :: "string list \<Rightarrow> string list \<Rightarrow> string \<Rightarrow> error + string option" where
  "row_get fieldnames row key =
     (case map_of (zip fieldnames
                    (map Some row @ replicate (length fieldnames - length row) None)) key of
        None \<Rightarrow> Inl KeyError
      | Some v \<Rightarrow> Inr v)"

text \<open>
  \<^verbatim>\<open>annotations[example_id].attr = value\<close>: the lookup creates the entry when it is
  missing, then the attribute of the stored object is set.
\<close>

definition setattr ::
  "annotations \<Rightarrow> string \<Rightarrow> (Annotation \<Rightarrow> Annotation) \<Rightarrow> annotations" where
  "setattr d k f =
     (let (a, d1) = getitem d k
      in map (\<lambda>(k', v). if k' = k then (k', f v) else (k', v)) d1)"

text \<open>\<^verbatim>\<open>PRONOUNS.get(key, Gender.UNKNOWN)\<close>\<close>

definition PRONOUNS_get :: "string \<Rightarrow> Gender" where
  "PRONOUNS_get key = (case map_of PRONOUNS key of None \<Rightarrow> UNKNOWN | Some g \<Rightarrow> g)"

text \<open>
  The body of \<^verbatim>\<open>for row in reader\<close> after the test for a repeated identifier, for a
  row whose first field, the column \<^verbatim>\<open>ID\<close> of both schemas, is \<open>example_id\<close>.
\<close>

definition read_row ::
  "bool \<Rightarrow> string list \<Rightarrow> string \<Rightarrow> string list \<Rightarrow> annotations \<Rightarrow>
   error + (annotations \<times> string list)" where
  "read_row is_gold fieldnames example_id row annotations =
     (case row_get fieldnames row ''A-coref'' of
        Inl e \<Rightarrow> Inl e
      | Inr a_field \<Rightarrow>
     (case is_true a_field of
        Inl e \<Rightarrow> Inl e
      | Inr (a, out_a) \<Rightarrow>
     (let d1 = setattr annotations example_id (\<lambda>x. x\<lparr>name_a_coref := a\<rparr>) in
     (case row_get fieldnames row ''B-coref'' of
        Inl e \<Rightarrow> Inl e
      | Inr b_field \<Rightarrow>
     (case is_true b_field of
        Inl e \<Rightarrow> Inl e
      | Inr (b, out_b) \<Rightarrow>
     (let d2 = setattr d1 example_id (\<lambda>x. x\<lparr>name_b_coref := b\<rparr>) in
      if is_gold then
        (case row_get fieldnames row ''Pronoun'' of
           Inl e \<Rightarrow> Inl e
         | Inr None \<Rightarrow> Inl AttributeError
         | Inr (Some pronoun) \<Rightarrow>
             (let g = PRONOUNS_get (lower pronoun) in
              if g = UNKNOWN then Inl AssertionError
              else Inr (setattr d2 example_id (\<lambda>x. x\<lparr>gender := Some g\<rparr>), out_a @ out_b)))
      else Inr (d2, out_a @ out_b)))))))"

text \<open>
  \<^verbatim>\<open>for row in reader\<close>. \<^verbatim>\<open>DictReader\<close> passes over empty rows; a row whose
  identifier is already a key is reported and skipped. What was printed before an
  exception is not kept.
\<close>

fun read_rows ::
  "bool \<Rightarrow> string list \<Rightarrow> string list list \<Rightarrow> annotations \<Rightarrow>
   error + (annotations \<times> string list)" where
  "read_rows is_gold fieldnames [] annotations = Inr (annotations, [])"
| "read_rows is_gold fieldnames ([] # rows) annotations =
     read_rows is_gold fieldnames rows annotations"
| "read_rows is_gold fieldnames ((example_id # cells) # rows) annotations =
     (if contains annotations example_id then
        (case read_rows is_gold fieldnames rows annotations of
           Inl e \<Rightarrow> Inl e
         | Inr (d, out) \<Rightarrow> Inr (d, (''Multiple annotations for '' @ example_id) # out))
      else
        (case read_row is_gold fieldnames example_id (example_id # cells) annotations of
           Inl e \<Rightarrow> Inl e
         | Inr (d1, out1) \<Rightarrow>
             (case read_rows is_gold fieldnames rows d1 of
                Inl e \<Rightarrow> Inl e
              | Inr (d, out) \<Rightarrow> Inr (d, out1 @ out))))"

text \<open>
  \<^verbatim>\<open>next(reader, None)\<close> drops the first row that is not empty, the header of the
  gold file.
\<close>

definition read_annotations ::
  "string list list \<Rightarrow> bool \<Rightarrow> error + (annotations \<times> string list)" where
  "read_annotations rows is_gold =
     (let fieldnames = (if is_gold then GOLD_FIELDNAMES else SYSTEM_FIELDNAMES);
          reader = filter (\<lambda>row. row \<noteq> []) rows
      in read_rows is_gold fieldnames (if is_gold then drop 1 reader else reader) [])"

subsection \<open>make\_scorecard\<close>

definition TAB :: string where
  "TAB = [CHR 0x09]"

definition NEWLINE :: string where
  "NEWLINE = [CHR 0x0A]"

text \<open>\<^verbatim>\<open>sep.join(lines)\<close>\<close>

fun join :: "string \<Rightarrow> string list \<Rightarrow> string" where
  "join sep [] = []"
| "join sep [x] = x"
| "join sep (x # y # ys) = x @ sep @ join sep (y # ys)"

text \<open>\<^verbatim>\<open>'{:d}'.format(n)\<close>: the decimal digits of an integer, with its sign.\<close>

fun digits :: "nat \<Rightarrow> string" where
  "digits n =
     (if n < 10 then [''0123456789'' ! n]
      else digits (n div 10) @ [''0123456789'' ! (n mod 10)])"

definition format_d :: "int \<Rightarrow> string" where
  "format_d n = (if n < 0 then ''-'' @ digits (nat (- n)) else digits (nat n))"

text \<open>\<^verbatim>\<open>scores.get(gender, Scores())\<close>\<close>

definition scores_get :: "scores \<Rightarrow> Gender option \<Rightarrow> Scores" where
  "scores_get sc g = (case sc g of None \<Rightarrow> new_Scores | Some s \<Rightarrow> s)"

definition display_names :: "(Gender option \<times> string) list" where
  "display_names =
     [(None, ''Overall''), (Some MASCULINE, ''Masculine''), (Some FEMININE, ''Feminine'')]"

text \<open>
  \<^verbatim>\<open>for gender, display_name in display_names\<close>. The formatting of a float with a
  given number of decimals, \<^verbatim>\<open>'{:.1f}'\<close> and \<^verbatim>\<open>'{:.2f}'\<close>, belongs to Python and is
  the parameter \<open>fmt\<close>.
\<close>

fun scorecard_blocks ::
  "(nat \<Rightarrow> real \<Rightarrow> string) \<Rightarrow> scores \<Rightarrow> (Gender option \<times> string) list \<Rightarrow>
   string list \<Rightarrow> (Gender option \<rightharpoonup> real) \<Rightarrow>
   error + (string list \<times> (Gender option \<rightharpoonup> real))" where
  "scorecard_blocks fmt sc [] scorecard bias_terms = Inr (scorecard, bias_terms)"
| "scorecard_blocks fmt sc ((g, display_name) # rest) scorecard bias_terms =
     (let gender_scores = scores_get sc g in
      case recall gender_scores of
        Inl e \<Rightarrow> Inl e
      | Inr r \<Rightarrow>
     (case precision gender_scores of
        Inl e \<Rightarrow> Inl e
      | Inr p \<Rightarrow>
     (case f1 gender_scores of
        Inl e \<Rightarrow> Inl e
      | Inr f \<Rightarrow>
          scorecard_blocks fmt sc rest
            (scorecard @
              [display_name @ '' recall: '' @ fmt 1 r @ '' precision: '' @ fmt 1 p @
                 '' f1: '' @ fmt 1 f,
               TAB @ TAB @ ''tp '' @ format_d (true_positives gender_scores) @
                 TAB @ ''fp '' @ format_d (false_positives gender_scores),
               TAB @ TAB @ ''fn '' @ format_d (false_negatives gender_scores) @
                 TAB @ ''tn '' @ format_d (true_negatives gender_scores)])
            (bias_terms(g \<mapsto> f)))))"

text \<open>
  \<^verbatim>\<open>bias_terms[MASCULINE] and bias_terms[FEMININE]\<close> reads the feminine term only
  when the masculine one is nonzero; a float is true when it is not zero.
\<close>

definition make_scorecard :: "(nat \<Rightarrow> real \<Rightarrow> string) \<Rightarrow> scores \<Rightarrow> error + string" where
  "make_scorecard fmt sc =
     (case scorecard_blocks fmt sc display_names [] Map.empty of
        Inl e \<Rightarrow> Inl e
      | Inr (scorecard, bias_terms) \<Rightarrow>
     (case bias_terms (Some MASCULINE) of
        None \<Rightarrow> Inl KeyError
      | Some m \<Rightarrow>
          if m = 0 then Inr (join NEWLINE (scorecard @ [''Bias (F/M): '' @ ''-'' @ NEWLINE]))
          else
            (case bias_terms (Some FEMININE) of
               None \<Rightarrow> Inl KeyError
             | Some f \<Rightarrow>
                 if f = 0 then
                   Inr (join NEWLINE (scorecard @ [''Bias (F/M): '' @ ''-'' @ NEWLINE]))
                 else
                   (case truediv f m of
                      Inl e \<Rightarrow> Inl e
                    | Inr ratio \<Rightarrow>
                        Inr (join NEWLINE
                              (scorecard @ [''Bias (F/M): '' @ fmt 2 ratio @ NEWLINE]))))))"

subsection \<open>run\_scorer\<close>

text \<open>
  The two \<^verbatim>\<open>assert\<close> statements test the dictionaries for being non-empty. The
  result is the scorecard and everything printed on the way.
\<close>

definition run_scorer ::
  "(nat \<Rightarrow> real \<Rightarrow> string) \<Rightarrow> string list list \<Rightarrow> string list list \<Rightarrow>
   error + (string \<times> string list)" where
  "run_scorer fmt gold_tsv system_tsv =
     (case read_annotations gold_tsv True of
        Inl e \<Rightarrow> Inl e
      | Inr (gold_annotations, out1) \<Rightarrow>
          if gold_annotations = [] then Inl AssertionError
          else
     (case read_annotations system_tsv False of
        Inl e \<Rightarrow> Inl e
      | Inr (system_annotations, out2) \<Rightarrow>
          if system_annotations = [] then Inl AssertionError
          else
            (let (sc, system_annotations', out3) =
                   calculate_scores gold_annotations system_annotations
             in case make_scorecard fmt sc of
                  Inl e \<Rightarrow> Inl e
                | Inr scorecard \<Rightarrow> Inr (scorecard, out1 @ out2 @ out3))))"

section \<open>Auxiliary definitions\<close>

text \<open>
  The definitions below are not part of the program: they are the vocabulary in which
  its properties are stated and proved.
\<close>

text \<open>What \<open>getitem\<close> returns, without the dictionary.\<close>

definition lookup :: "annotations \<Rightarrow> string \<Rightarrow> Annotation" where
  "lookup d k = fst (getitem d k)"

text \<open>Tallies added counter by counter.\<close>

definition plus_Scores :: "Scores \<Rightarrow> Scores \<Rightarrow> Scores" where
  "plus_Scores a b =
     \<lparr>true_positives = true_positives a + true_positives b,
      false_positives = false_positives a + false_positives b,
      true_negatives = true_negatives a + true_negatives b,
      false_negatives = false_negatives a + false_negatives b\<rparr>"

text \<open>What one judgment, and a list of judgments, adds to a tally.\<close>

definition judged :: "bool option \<times> bool option \<Rightarrow> Scores" where
  "judged pair = fst (score_judgment [] pair new_Scores)"

fun tally :: "(bool option \<times> bool option) list \<Rightarrow> Scores" where
  "tally [] = new_Scores"
| "tally (pair # pairs) = plus_Scores (judged pair) (tally pairs)"

definition example_pairs ::
  "Annotation \<Rightarrow> Annotation \<Rightarrow> (bool option \<times> bool option) list" where
  "example_pairs ga sa =
     [(name_a_coref ga, name_a_coref sa), (name_b_coref ga, name_b_coref sa)]"

definition add_tally :: "scores \<Rightarrow> Gender option \<Rightarrow> Scores \<Rightarrow> scores" where
  "add_tally sc g t = sc(g \<mapsto> plus_Scores (scores_get sc g) t)"

definition add_example :: "scores \<Rightarrow> Annotation \<Rightarrow> Annotation \<Rightarrow> scores" where
  "add_example sc ga sa =
     add_tally (add_tally sc None (tally (example_pairs ga sa))) (gender ga)
       (tally (example_pairs ga sa))"

definition additive :: "(Scores \<Rightarrow> int) \<Rightarrow> bool" where
  "additive f = (f new_Scores = 0 \<and> (\<forall>a b. f (plus_Scores a b) = f a + f b))"

text \<open>
  One counter summed over the tallies of the three genders; a gender with no tally
  counts as \<^verbatim>\<open>Scores()\<close>, that is as zero.
\<close>

definition gender_sum :: "(Scores \<Rightarrow> int) \<Rightarrow> scores \<Rightarrow> int" where
  "gender_sum f sc = (\<Sum>g\<leftarrow>[UNKNOWN, MASCULINE, FEMININE]. f (scores_get sc (Some g)))"

text \<open>The judgments whose system value is \<^verbatim>\<open>None\<close>: of one example, and of a run.\<close>

definition missing :: "(bool option \<times> bool option) list \<Rightarrow> nat" where
  "missing pairs = length (filter (\<lambda>p. snd p = None) pairs)"

definition missing_judgments :: "annotations \<Rightarrow> annotations \<Rightarrow> nat" where
  "missing_judgments gold sys =
     (\<Sum>x\<leftarrow>gold. missing (example_pairs (snd x) (lookup sys (fst x))))"

text \<open>
  The classification as the specification words it: four buckets, and a table from the
  gold value and the system value (absent: \<open>None\<close>) to the bucket.
\<close>

datatype bucket = TP | FP | TN | FN

fun spec_classify :: "bool \<Rightarrow> bool option \<Rightarrow> bucket" where
  "spec_classify gold None = FN"
| "spec_classify True (Some True) = TP"
| "spec_classify False (Some True) = FP"
| "spec_classify False (Some False) = TN"
| "spec_classify True (Some False) = FN"

fun increment :: "bucket \<Rightarrow> Scores \<Rightarrow> Scores" where
  "increment TP s = s\<lparr>true_positives := true_positives s + 1\<rparr>"
| "increment FP s = s\<lparr>false_positives := false_positives s + 1\<rparr>"
| "increment TN s = s\<lparr>true_negatives := true_negatives s + 1\<rparr>"
| "increment FN s = s\<lparr>false_negatives := false_negatives s + 1\<rparr>"

text \<open>A gold annotation with each judgment replaced by its truth value.\<close>

definition normalise_gold :: "Annotation \<Rightarrow> Annotation" where
  "normalise_gold a =
     a\<lparr>name_a_coref := Some (truthy (name_a_coref a)),
       name_b_coref := Some (truthy (name_b_coref a))\<rparr>"

text \<open>
  A small run: three gold examples and a system output that answers the first and the
  third and leaves out the second.
\<close>

definition example_gold :: annotations where
  "example_gold =
     [(''1'', \<lparr>gender = Some FEMININE, name_a_coref = Some True, name_b_coref = Some False\<rparr>),
      (''2'', \<lparr>gender = Some MASCULINE, name_a_coref = Some False, name_b_coref = Some True\<rparr>),
      (''3'', \<lparr>gender = Some MASCULINE, name_a_coref = None, name_b_coref = None\<rparr>)]"

definition example_system :: annotations where
  "example_system =
     [(''1'', \<lparr>gender = None, name_a_coref = Some True, name_b_coref = Some True\<rparr>),
      (''3'', \<lparr>gender = None, name_a_coref = Some True, name_b_coref = Some False\<rparr>)]"

text \<open>
  The rows the loop of \<open>read_annotations\<close> sees: the rows that are not empty, without the
  header when the file is the gold file.
\<close>

definition data_rows :: "string list list \<Rightarrow> bool \<Rightarrow> string list list" where
  "data_rows rows is_gold =
     (if is_gold then drop 1 (filter (\<lambda>row. row \<noteq> []) rows)
      else filter (\<lambda>row. row \<noteq> []) rows)"

text \<open>
  The rows of a file that are not skipped: the first row of each identifier, given the
  identifiers \<open>seen\<close> before.
\<close>

fun first_seen :: "string list \<Rightarrow> string list list \<Rightarrow> string list list" where
  "first_seen seen [] = []"
| "first_seen seen ([] # rows) = first_seen seen rows"
| "first_seen seen ((example_id # cells) # rows) =
     (if example_id \<in> set seen then first_seen seen rows
      else (example_id # cells) # first_seen (seen @ [example_id]) rows)"

text \<open>
  A row read into an empty dictionary, and whether that raises.
\<close>

definition read_alone :: "bool \<Rightarrow> string list \<Rightarrow> string list \<Rightarrow> error + (annotations \<times> string list)" where
  "read_alone is_gold fieldnames row =
     (case row of [] \<Rightarrow> Inr ([], []) | example_id # cells \<Rightarrow> read_row is_gold fieldnames example_id row [])"

definition row_ok :: "bool \<Rightarrow> string list \<Rightarrow> string list \<Rightarrow> bool" where
  "row_ok is_gold fieldnames row =
     (case read_alone is_gold fieldnames row of Inl e \<Rightarrow> False | Inr x \<Rightarrow> True)"

text \<open>
  The \<^verbatim>\<open>Pronoun\<close> field of a gold row is there and, in lower case, a key of
  \<open>PRONOUNS\<close>.
\<close>

definition pronoun_recognised :: "string list \<Rightarrow> bool" where
  "pronoun_recognised row =
     (case row_get GOLD_FIELDNAMES row ''Pronoun'' of
        Inr (Some pronoun) \<Rightarrow> map_of PRONOUNS (lower pronoun) \<noteq> None
      | _ \<Rightarrow> False)"

text \<open>
  Every data row has all the columns of its schema.
\<close>

definition well_formed :: "string list list \<Rightarrow> bool \<Rightarrow> bool" where
  "well_formed rows is_gold =
     (\<forall>row \<in> set (data_rows rows is_gold).
        length (if is_gold then GOLD_FIELDNAMES else SYSTEM_FIELDNAMES) \<le> length row)"

text \<open>
  The three lines of one display category, as the specification lists them.
\<close>

definition spec_block ::
  "(nat \<Rightarrow> real \<Rightarrow> string) \<Rightarrow> string \<Rightarrow> real \<Rightarrow> real \<Rightarrow> real \<Rightarrow> Scores \<Rightarrow> string list" where
  "spec_block fmt display_name r p f s =
     [display_name @ '' recall: '' @ fmt 1 r @ '' precision: '' @ fmt 1 p @ '' f1: '' @ fmt 1 f,
      TAB @ TAB @ ''tp '' @ format_d (true_positives s) @ TAB @ ''fp '' @ format_d (false_positives s),
      TAB @ TAB @ ''fn '' @ format_d (false_negatives s) @ TAB @ ''tn '' @ format_d (true_negatives s)]"

text \<open>
  A stand-in for Python's fixed-point formatting of a float, used in the examples: the
  decimal expansion of a real number, rounded to the given number of decimals, a tie going
  to the even digit.
\<close>

definition round_half_even :: "real \<Rightarrow> int" where
  "round_half_even y =
     (let fl = \<lfloor>y\<rfloor>; d = y - of_int fl
      in if d < 1 / 2 then fl else if 1 / 2 < d then fl + 1 else if even fl then fl else fl + 1)"

definition fixed_point :: "nat \<Rightarrow> real \<Rightarrow> string" where
  "fixed_point n x =
     (let scaled = nat (round_half_even (\<bar>x\<bar> * 10 ^ n));
          whole = scaled div 10 ^ n;
          frac = scaled mod 10 ^ n
      in (if x < 0 then ''-'' else []) @ digits whole @
         (if n = 0 then [] else ''.'' @ replicate (n - length (digits frac)) (CHR ''0'') @ digits frac))"

text \<open>
  The files of the examples: a gold file with its header and one row, a system file that
  answers it, the gold file with a second row of the same identifier whose pronoun is
  unknown, and a system file with a repeated identifier and an unparseable label.
\<close>

definition example_gold_tsv :: "string list list" where
  "example_gold_tsv =
     [GOLD_FIELDNAMES,
      [''1'', ''text'', ''she'', ''0'', ''Ann'', ''1'', ''TRUE'', ''Bea'', ''2'', ''FALSE'', ''url'']]"

definition example_system_tsv :: "string list list" where
  "example_system_tsv = [[''1'', ''TRUE'', ''FALSE'']]"

definition duplicate_gold_tsv :: "string list list" where
  "duplicate_gold_tsv =
     example_gold_tsv @
     [[''1'', ''text'', ''it'', ''0'', ''Ann'', ''1'', ''FALSE'', ''Bea'', ''2'', ''TRUE'', ''url'']]"

definition duplicate_system_tsv :: "string list list" where
  "duplicate_system_tsv =
     [[''1'', ''TRUE'', ''maybe''], [''2'', ''false'', ''False''], [''1'', ''FALSE'', ''TRUE'']]"



section \<open>Properties of calculate\_scores\<close>

lemma plus_Scores_new [simp]: "plus_Scores s new_Scores = s"
  by (simp add: plus_Scores_def new_Scores_def)

lemma plus_Scores_assoc: "plus_Scores (plus_Scores a b) c = plus_Scores a (plus_Scores b c)"
  by (simp add: plus_Scores_def)

lemma score_judgment_plus:
  "fst (score_judgment e p s) = plus_Scores s (judged p)"
  by (simp add: judged_def score_judgment_def plus_Scores_def new_Scores_def Let_def)

lemma score_judgments_plus:
  "fst (score_judgments e ps s) = plus_Scores s (tally ps)"
proof (induction ps arbitrary: s)
  case Nil
  show ?case by simp
next
  case (Cons p ps)
  have "fst (score_judgments e (p # ps) s) = fst (score_judgments e ps (fst (score_judgment e p s)))"
    by (simp add: split_def Let_def)
  also have "\<dots> = plus_Scores (plus_Scores s (judged p)) (tally ps)"
    by (simp add: Cons.IH score_judgment_plus)
  finally show ?case by (simp add: plus_Scores_assoc)
qed

lemma score_genders_two:
  "fst (score_genders e ps [g1, g2] sc) = add_tally (add_tally sc g1 (tally ps)) g2 (tally ps)"
proof -
  have one: "fst (score_genders e ps [g] sc') = add_tally sc' g (tally ps)" for g sc'
    by (simp add: split_def Let_def add_tally_def scores_get_def score_judgments_plus)
  have "fst (score_genders e ps [g1, g2] sc) =
        fst (score_genders e ps [g2] (add_tally sc g1 (tally ps)))"
    by (simp add: split_def Let_def add_tally_def scores_get_def score_judgments_plus)
  then show ?thesis by (simp only: one)
qed

lemma getitem_fst: "fst (getitem d k) = lookup d k"
  by (simp add: lookup_def)

lemma score_examples_Cons:
  "fst (score_examples ((e, ga) # rest) sys sc) =
   fst (score_examples rest (snd (getitem sys e)) (add_example sc ga (lookup sys e)))"
proof -
  have "fst (score_examples ((e, ga) # rest) sys sc) =
        fst (score_examples rest (snd (getitem sys e))
              (fst (score_genders e (example_pairs ga (fst (getitem sys e))) [None, gender ga] sc)))"
    by (simp add: split_def Let_def example_pairs_def)
  then show ?thesis
    by (simp only: score_genders_two add_example_def getitem_fst)
qed

lemma lookup_getitem: "lookup (snd (getitem d k)) k' = lookup d k'"
  by (auto simp: lookup_def getitem_def map_add_def split: option.splits if_splits)

lemma map_of_getitem:
  "map_of (snd (getitem d k)) = (map_of d)(k \<mapsto> lookup d k)"
  by (auto simp: lookup_def getitem_def map_add_def fun_eq_iff split: option.splits)

lemma score_examples_sys_Cons:
  "fst (snd (score_examples ((e, ga) # rest) sys sc)) =
   fst (snd (score_examples rest (snd (getitem sys e)) (add_example sc ga (lookup sys e))))"
proof -
  have "fst (snd (score_examples ((e, ga) # rest) sys sc)) =
        fst (snd (score_examples rest (snd (getitem sys e))
              (fst (score_genders e (example_pairs ga (fst (getitem sys e))) [None, gender ga] sc))))"
    by (simp add: split_def Let_def example_pairs_def)
  then show ?thesis
    by (simp only: score_genders_two add_example_def getitem_fst)
qed

lemma score_examples_lookup:
  "lookup (fst (snd (score_examples gold sys sc))) k = lookup sys k"
proof (induction gold arbitrary: sys sc)
  case Nil
  show ?case by simp
next
  case (Cons x gold)
  obtain e ga where x: "x = (e, ga)" by (cases x)
  show ?case
    unfolding x score_examples_sys_Cons by (simp add: Cons.IH lookup_getitem)
qed

lemma score_examples_cong:
  "(\<And>k. lookup sysA k = lookup sysB k) \<Longrightarrow>
   fst (score_examples gold sysA sc) = fst (score_examples gold sysB sc)"
proof (induction gold arbitrary: sysA sysB sc)
  case Nil
  show ?case by simp
next
  case (Cons x gold)
  obtain e ga where x: "x = (e, ga)" by (cases x)
  have "fst (score_examples gold (snd (getitem sysA e)) (add_example sc ga (lookup sysA e))) =
        fst (score_examples gold (snd (getitem sysB e)) (add_example sc ga (lookup sysA e)))"
    by (rule Cons.IH) (simp add: lookup_getitem Cons.prems)
  then show ?case
    unfolding x score_examples_Cons by (simp add: Cons.prems)
qed

lemma map_of_score_examples:
  "map_of (fst (snd (score_examples gold sys sc))) k =
   (if k \<in> fst ` set gold then Some (lookup sys k) else map_of sys k)"
proof (induction gold arbitrary: sys sc)
  case Nil
  show ?case by simp
next
  case (Cons x gold)
  obtain e ga where x: "x = (e, ga)" by (cases x)
  show ?case
    unfolding x score_examples_sys_Cons
    by (simp add: Cons.IH lookup_getitem map_of_getitem)
qed

lemma additive_fields:
  "additive true_positives" "additive false_positives"
  "additive true_negatives" "additive false_negatives"
  by (simp_all add: additive_def plus_Scores_def new_Scores_def)

lemma add_example_balanced:
  assumes "additive f" and "gender ga \<noteq> None"
    and "f (scores_get sc None) = gender_sum f sc"
  shows "f (scores_get (add_example sc ga sa) None) = gender_sum f (add_example sc ga sa)"
proof -
  obtain g where g: "gender ga = Some g" using assms(2) by auto
  have plus: "f (plus_Scores a b) = f a + f b" for a b
    using assms(1) by (simp add: additive_def)
  show ?thesis
    using assms(3)
    by (cases g) (simp_all add: g add_example_def add_tally_def scores_get_def gender_sum_def plus)
qed

lemma score_examples_balanced:
  assumes "additive f" and "\<forall>x \<in> set gold. gender (snd x) \<noteq> None"
    and "f (scores_get sc None) = gender_sum f sc"
  shows "f (scores_get (fst (score_examples gold sys sc)) None) =
         gender_sum f (fst (score_examples gold sys sc))"
  using assms(2,3)
proof (induction gold arbitrary: sys sc)
  case Nil
  then show ?case by simp
next
  case (Cons x gold)
  obtain e ga where x: "x = (e, ga)" by (cases x)
  have "f (scores_get (add_example sc ga (lookup sys e)) None) =
        gender_sum f (add_example sc ga (lookup sys e))"
    using Cons.prems by (intro add_example_balanced assms(1)) (simp_all add: x)
  then show ?case
    unfolding x score_examples_Cons using Cons.prems by (intro Cons.IH) simp_all
qed

lemma score_judgment_out:
  "snd (score_judgment e p s) = (if snd p = None then [''Missing output for '' @ e] else [])"
  by (simp add: score_judgment_def Let_def)

lemma score_judgments_out:
  "snd (score_judgments e ps s) = replicate (missing ps) (''Missing output for '' @ e)"
  by (induction ps arbitrary: s) (simp_all add: split_def Let_def score_judgment_out missing_def)

lemma score_genders_out:
  "snd (score_genders e ps gs sc) =
   concat (replicate (length gs) (replicate (missing ps) (''Missing output for '' @ e)))"
  by (induction gs arbitrary: sc) (simp_all add: split_def Let_def score_judgments_out)

lemma score_examples_out_Cons:
  "snd (snd (score_examples ((e, ga) # rest) sys sc)) =
   replicate (2 * missing (example_pairs ga (lookup sys e))) (''Missing output for '' @ e) @
   snd (snd (score_examples rest (snd (getitem sys e)) (add_example sc ga (lookup sys e))))"
proof -
  have "snd (snd (score_examples ((e, ga) # rest) sys sc)) =
        snd (score_genders e (example_pairs ga (fst (getitem sys e))) [None, gender ga] sc) @
        snd (snd (score_examples rest (snd (getitem sys e))
              (fst (score_genders e (example_pairs ga (fst (getitem sys e))) [None, gender ga] sc))))"
    by (simp add: split_def Let_def example_pairs_def)
  then show ?thesis
    by (simp only: score_genders_two add_example_def getitem_fst score_genders_out)
      (simp add: replicate_add [symmetric] mult_2)
qed

lemma score_examples_warns:
  assumes "(e, ga) \<in> set gold" and "0 < missing (example_pairs ga (lookup sys e))"
  shows "''Missing output for '' @ e \<in> set (snd (snd (score_examples gold sys sc)))"
  using assms
proof (induction gold arbitrary: sys sc)
  case Nil
  then show ?case by simp
next
  case (Cons x gold)
  obtain e' ga' where x: "x = (e', ga')" by (cases x)
  show ?case
  proof (cases "(e, ga) = (e', ga')")
    case True
    then show ?thesis
      unfolding x score_examples_out_Cons using Cons.prems(2) by simp
  next
    case False
    then have "(e, ga) \<in> set gold" using Cons.prems(1) by (auto simp: x)
    moreover have "0 < missing (example_pairs ga (lookup (snd (getitem sys e')) e))"
      using Cons.prems(2) by (simp add: lookup_getitem)
    ultimately have "''Missing output for '' @ e \<in>
        set (snd (snd (score_examples gold (snd (getitem sys e')) (add_example sc ga' (lookup sys e')))))"
      by (rule Cons.IH)
    then show ?thesis
      unfolding x score_examples_out_Cons by simp
  qed
qed

lemma judged_nonneg:
  "0 \<le> true_positives (judged p)" "0 \<le> false_positives (judged p)"
  "0 \<le> true_negatives (judged p)" "0 \<le> false_negatives (judged p)"
  by (simp_all add: judged_def score_judgment_def new_Scores_def Let_def)

lemma judged_missing:
  "snd p = None \<Longrightarrow> false_negatives (judged p) = 1"
  by (simp add: judged_def score_judgment_def new_Scores_def Let_def)

lemma tally_missing: "int (missing ps) \<le> false_negatives (tally ps)"
proof (induction ps)
  case Nil
  show ?case by (simp add: missing_def new_Scores_def)
next
  case (Cons p ps)
  show ?case
  proof (cases "snd p = None")
    case True
    then show ?thesis
      using Cons.IH by (simp add: missing_def plus_Scores_def judged_missing)
  next
    case False
    then have "filter (\<lambda>p. snd p = None) (p # ps) = filter (\<lambda>p. snd p = None) ps"
      by simp
    then have "missing (p # ps) = missing ps"
      by (simp only: missing_def)
    then show ?thesis
      using Cons.IH judged_nonneg(4) [of p] by (simp add: plus_Scores_def)
  qed
qed

lemma add_example_overall_fn:
  "false_negatives (scores_get sc None) + int (missing (example_pairs ga sa))
   \<le> false_negatives (scores_get (add_example sc ga sa) None)"
proof -
  have "0 \<le> int (missing (example_pairs ga sa))" by simp
  then show ?thesis
    using tally_missing [of "example_pairs ga sa"]
    by (cases "gender ga")
      (simp_all add: add_example_def add_tally_def scores_get_def plus_Scores_def)
qed

lemma score_examples_overall_fn:
  "false_negatives (scores_get sc None) + int (missing_judgments gold sys)
   \<le> false_negatives (scores_get (fst (score_examples gold sys sc)) None)"
proof (induction gold arbitrary: sys sc)
  case Nil
  show ?case by (simp add: missing_judgments_def)
next
  case (Cons x gold)
  obtain e ga where x: "x = (e, ga)" by (cases x)
  have same: "missing_judgments gold (snd (getitem sys e)) = missing_judgments gold sys"
    by (simp add: missing_judgments_def lookup_getitem)
  have "false_negatives (scores_get sc None) + int (missing_judgments (x # gold) sys) =
        false_negatives (scores_get sc None) + int (missing (example_pairs ga (lookup sys e)))
          + int (missing_judgments gold sys)"
    by (simp add: missing_judgments_def x)
  also have "\<dots> \<le> false_negatives (scores_get (add_example sc ga (lookup sys e)) None)
          + int (missing_judgments gold (snd (getitem sys e)))"
    using add_example_overall_fn [of sc ga "lookup sys e"] by (simp add: same)
  also have "\<dots> \<le> false_negatives (scores_get
      (fst (score_examples gold (snd (getitem sys e)) (add_example sc ga (lookup sys e)))) None)"
    by (rule Cons.IH)
  finally show ?case
    unfolding x score_examples_Cons .
qed

lemma score_judgment_table:
  "fst (score_judgment e (Some gold, system) s) = increment (spec_classify gold system) s"
proof (cases system)
  case None
  then show ?thesis by (simp add: score_judgment_def Let_def)
next
  case (Some y)
  then show ?thesis
    by (cases gold; cases y) (simp_all add: score_judgment_def truthy_def Let_def)
qed

lemma increment_inj: "increment b s = increment b' s \<Longrightarrow> b = b'"
proof -
  assume eq: "increment b s = increment b' s"
  have tp: "true_positives (increment b s) = true_positives (increment b' s)"
    and fp: "false_positives (increment b s) = false_positives (increment b' s)"
    and tn: "true_negatives (increment b s) = true_negatives (increment b' s)"
    using eq by simp_all
  show "b = b'"
    using tp fp tn by (cases b; cases b') simp_all
qed

lemma calculate_scores_rerun:
  "fst (calculate_scores gold (fst (snd (calculate_scores gold sys)))) =
   fst (calculate_scores gold sys)"
  unfolding calculate_scores_def
  by (rule score_examples_cong) (rule score_examples_lookup)

lemma score_judgment_truthy:
  "score_judgment e (Some (truthy g), y) s = score_judgment e (g, y) s"
  by (simp add: score_judgment_def truthy_def Let_def)

lemma score_judgments_truthy:
  "score_judgments e (map (\<lambda>p. (Some (truthy (fst p)), snd p)) ps) s = score_judgments e ps s"
  by (induction ps arbitrary: s) (simp_all add: score_judgment_truthy)

lemma score_genders_truthy:
  "score_genders e (map (\<lambda>p. (Some (truthy (fst p)), snd p)) ps) gs sc = score_genders e ps gs sc"
  by (induction gs arbitrary: sc) (simp_all only: score_genders.simps score_judgments_truthy)

lemma score_genders_truthy_two:
  "score_genders e [(Some (truthy g1), a), (Some (truthy g2), b)] gs sc =
   score_genders e [(g1, a), (g2, b)] gs sc"
  using score_genders_truthy [of e "[(g1, a), (g2, b)]" gs sc] by simp

lemma score_examples_normalise:
  "score_examples (map (apsnd normalise_gold) gold) sys sc = score_examples gold sys sc"
proof (induction gold arbitrary: sys sc)
  case Nil
  show ?case by simp
next
  case (Cons x gold)
  obtain e ga where x: "x = (e, ga)" by (cases x)
  show ?case
    unfolding x
    by (simp add: normalise_gold_def split_def Let_def score_genders_truthy_two
        Cons.IH [unfolded normalise_gold_def] del: score_genders.simps)
qed

subsection \<open>The metrics\<close>

lemma recall_value:
  "recall s =
     Inr (if true_positives s + false_negatives s = 0 then 0
          else 100 * real_of_int (true_positives s) /
               real_of_int (true_positives s + false_negatives s))"
  by (simp add: recall_def truediv_def Let_def)

lemma precision_value:
  "precision s =
     Inr (if true_positives s + false_positives s = 0 then 0
          else 100 * real_of_int (true_positives s) /
               real_of_int (true_positives s + false_positives s))"
  by (simp add: precision_def truediv_def Let_def)

lemma f1_value:
  assumes "recall s = Inr r" and "precision s = Inr p"
  shows "f1 s = Inr (if p + r = 0 then 0 else 2 * p * r / (p + r))"
  using assms by (simp add: f1_def truediv_def Let_def)

subsection \<open>Reading the files\<close>

lemma contains_iff: "contains d k \<longleftrightarrow> k \<in> set (map fst d)"
  by (simp add: contains_def map_of_eq_None_iff)

lemma setattr_fresh:
  assumes "map_of d k = None"
  shows "setattr d k f = d @ [(k, f new_Annotation)]"
proof -
  have "k \<notin> fst ` set d" using assms by (simp add: map_of_eq_None_iff)
  then have "map (\<lambda>(k', v). if k' = k then (k', f v) else (k', v)) d = d"
    by (induction d) auto
  then show ?thesis
    using assms by (simp add: setattr_def getitem_def)
qed

lemma setattr_last:
  assumes "map_of d k = None"
  shows "setattr (d @ [(k, a)]) k f = d @ [(k, f a)]"
proof -
  have "k \<notin> fst ` set d" using assms by (simp add: map_of_eq_None_iff)
  then have "map (\<lambda>(k', v). if k' = k then (k', f v) else (k', v)) d = d"
    by (induction d) auto
  moreover have "map_of (d @ [(k, a)]) k = Some a"
    using assms by (simp add: map_add_def)
  ultimately show ?thesis
    by (simp add: setattr_def getitem_def)
qed

lemma read_row_fresh:
  assumes "map_of d k = None"
  shows "read_row g fn k row d =
     (case read_row g fn k row [] of Inl e \<Rightarrow> Inl e | Inr (d1, out) \<Rightarrow> Inr (d @ d1, out))"
proof -
  have nil: "map_of [] k = (None :: Annotation option)" by simp
  show ?thesis
    unfolding read_row_def
    by (simp add: setattr_fresh [OF assms] setattr_last [OF assms]
        setattr_fresh [OF nil] setattr_last [OF nil, simplified] Let_def
        split: sum.splits prod.splits option.splits)
qed

lemma read_row_single:
  assumes "read_row g fn k row [] = Inr (d1, out)"
  shows "\<exists>a. d1 = [(k, a)]"
proof -
  have nil: "map_of [] k = (None :: Annotation option)" by simp
  show ?thesis
    using assms unfolding read_row_def
    by (auto simp: setattr_fresh [OF nil] setattr_last [OF nil, simplified] Let_def
        split: sum.splits prod.splits option.splits if_splits)
qed

lemma read_rows_Cons_fresh:
  assumes "k \<notin> set (map fst d0)"
  shows "read_rows g fn ((k # cells) # rows) d0 =
     (case read_row g fn k (k # cells) [] of
        Inl e \<Rightarrow> Inl e
      | Inr (d1, out1) \<Rightarrow>
          (case read_rows g fn rows (d0 @ d1) of
             Inl e \<Rightarrow> Inl e
           | Inr (d, out) \<Rightarrow> Inr (d, out1 @ out)))"
proof -
  have none: "map_of d0 k = None"
    using assms by (simp add: map_of_eq_None_iff)
  have "\<not> contains d0 k"
    using assms by (simp add: contains_iff)
  then show ?thesis
    by (simp add: read_row_fresh [OF none] split: sum.splits prod.splits)
qed

lemma read_rows_Cons_seen:
  assumes "k \<in> set (map fst d0)"
  shows "read_rows g fn ((k # cells) # rows) d0 =
     (case read_rows g fn rows d0 of
        Inl e \<Rightarrow> Inl e
      | Inr (d, out) \<Rightarrow> Inr (d, (''Multiple annotations for '' @ k) # out))"
  using assms by (simp add: contains_iff)

lemma read_rows_succeeds_iff:
  "(\<exists>d out. read_rows g fn rows d0 = Inr (d, out)) \<longleftrightarrow>
   (\<forall>r \<in> set (first_seen (map fst d0) rows). row_ok g fn r)"
proof (induction rows arbitrary: d0)
  case Nil
  show ?case by simp
next
  case (Cons row rows)
  show ?case
  proof (cases row)
    case Nil
    then show ?thesis using Cons.IH [of d0] by simp
  next
    case row: (Cons k cells)
    show ?thesis
    proof (cases "k \<in> set (map fst d0)")
      case True
      have "(\<exists>d out. read_rows g fn (row # rows) d0 = Inr (d, out)) \<longleftrightarrow>
            (\<exists>d out. read_rows g fn rows d0 = Inr (d, out))"
        unfolding row read_rows_Cons_seen [OF True]
        by (auto split: sum.splits prod.splits)
      then show ?thesis
        using Cons.IH [of d0] True by (simp add: row)
    next
      case False
      show ?thesis
      proof (cases "read_row g fn k (k # cells) []")
        case (Inl e)
        then have "\<not> row_ok g fn (k # cells)"
          by (simp add: row_ok_def read_alone_def)
        moreover have "read_rows g fn (row # rows) d0 = Inl e"
          unfolding row read_rows_Cons_fresh [OF False] by (simp add: Inl)
        ultimately show ?thesis
          using False by (simp add: row)
      next
        case (Inr x)
        obtain d1 out1 where x: "x = (d1, out1)" by (cases x)
        obtain a where d1: "d1 = [(k, a)]"
          using read_row_single [of g fn k "k # cells" d1 out1] Inr x by auto
        have ok: "row_ok g fn (k # cells)"
          by (simp add: row_ok_def read_alone_def Inr)
        have "(\<exists>d out. read_rows g fn (row # rows) d0 = Inr (d, out)) \<longleftrightarrow>
              (\<exists>d out. read_rows g fn rows (d0 @ [(k, a)]) = Inr (d, out))"
          unfolding row read_rows_Cons_fresh [OF False]
          by (auto simp: Inr x d1 split: sum.splits prod.splits)
        then show ?thesis
          using Cons.IH [of "d0 @ [(k, a)]"] False ok by (simp add: row)
      qed
    qed
  qed
qed

lemma read_rows_append:
  "read_rows g fn (pre @ rest) d0 =
     (case read_rows g fn pre d0 of
        Inl e \<Rightarrow> Inl e
      | Inr (d1, out1) \<Rightarrow>
          (case read_rows g fn rest d1 of
             Inl e \<Rightarrow> Inl e
           | Inr (d, out2) \<Rightarrow> Inr (d, out1 @ out2)))"
proof (induction pre arbitrary: d0)
  case Nil
  show ?case by (simp split: sum.splits prod.splits)
next
  case (Cons row pre)
  show ?case
  proof (cases row)
    case Nil
    then show ?thesis using Cons.IH [of d0] by simp
  next
    case row: (Cons k cells)
    show ?thesis
    proof (cases "k \<in> set (map fst d0)")
      case True
      show ?thesis
        unfolding row append_Cons read_rows_Cons_seen [OF True] Cons.IH [of d0]
        by (simp split: sum.splits prod.splits)
    next
      case False
      show ?thesis
        unfolding row append_Cons read_rows_Cons_fresh [OF False]
        by (simp add: Cons.IH split: sum.splits prod.splits)
    qed
  qed
qed

lemma read_rows_keys:
  assumes "read_rows g fn rows d0 = Inr (d, out)"
  shows "\<exists>d'. d = d0 @ d' \<and> distinct (map fst d') \<and>
           (\<forall>k \<in> set (map fst d'). k \<notin> set (map fst d0) \<and> (\<exists>cells. k # cells \<in> set rows))"
  using assms
proof (induction rows arbitrary: d0 d out)
  case Nil
  then show ?case by simp
next
  case (Cons row rows)
  show ?case
  proof (cases row)
    case Nil
    then show ?thesis using Cons.IH [of d0 d out] Cons.prems by auto
  next
    case row: (Cons k cells)
    show ?thesis
    proof (cases "k \<in> set (map fst d0)")
      case True
      obtain out' where "read_rows g fn rows d0 = Inr (d, out')"
        using Cons.prems unfolding row read_rows_Cons_seen [OF True]
        by (auto split: sum.splits prod.splits)
      from Cons.IH [OF this] obtain d' where "d = d0 @ d'" "distinct (map fst d')"
        "\<forall>k' \<in> set (map fst d'). k' \<notin> set (map fst d0) \<and> (\<exists>cells. k' # cells \<in> set rows)"
        by blast
      moreover from this(3) have "\<forall>k' \<in> set (map fst d').
          k' \<notin> set (map fst d0) \<and> (\<exists>cells. k' # cells \<in> set (row # rows))"
        by (metis list.set_intros(2))
      ultimately show ?thesis by blast
    next
      case False
      obtain d1 out1 out' where one: "read_row g fn k (k # cells) [] = Inr (d1, out1)"
        and rest: "read_rows g fn rows (d0 @ d1) = Inr (d, out')"
        using Cons.prems unfolding row read_rows_Cons_fresh [OF False]
        by (auto split: sum.splits prod.splits)
      obtain a where d1: "d1 = [(k, a)]"
        using read_row_single [OF one] by auto
      obtain d' where d': "d = (d0 @ d1) @ d'" "distinct (map fst d')"
        "\<forall>k' \<in> set (map fst d'). k' \<notin> set (map fst (d0 @ d1)) \<and> (\<exists>cells. k' # cells \<in> set rows)"
        using Cons.IH [OF rest] by blast
      have "d = d0 @ (d1 @ d')" using d'(1) by simp
      moreover have "distinct (map fst (d1 @ d'))"
        using d'(2,3) by (auto simp: d1)
      moreover have "\<forall>k' \<in> set (map fst (d1 @ d')).
          k' \<notin> set (map fst d0) \<and> (\<exists>cells. k' # cells \<in> set (row # rows))"
        using d'(3) False by (auto simp: d1 row)
      ultimately show ?thesis by blast
    qed
  qed
qed

lemma read_rows_warns:
  assumes "read_rows g fn rows d0 = Inr (d, out)"
    and "k \<in> set (map fst d0)" and "k # cells \<in> set rows"
  shows "''Multiple annotations for '' @ k \<in> set out"
  using assms
proof (induction rows arbitrary: d0 d out)
  case Nil
  then show ?case by simp
next
  case (Cons row rows)
  show ?case
  proof (cases row)
    case Nil
    then show ?thesis using Cons.IH [of d0 d out] Cons.prems by auto
  next
    case row: (Cons k' cells')
    show ?thesis
    proof (cases "k' \<in> set (map fst d0)")
      case True
      obtain out' where rest: "read_rows g fn rows d0 = Inr (d, out')"
        and out: "out = (''Multiple annotations for '' @ k') # out'"
        using Cons.prems(1) unfolding row read_rows_Cons_seen [OF True]
        by (auto split: sum.splits prod.splits)
      show ?thesis
      proof (cases "k # cells = row")
        case True
        then show ?thesis by (simp add: out row)
      next
        case False
        then have "k # cells \<in> set rows" using Cons.prems(3) by auto
        from Cons.IH [OF rest Cons.prems(2) this] show ?thesis by (simp add: out)
      qed
    next
      case False
      obtain d1 out1 out' where one: "read_row g fn k' (k' # cells') [] = Inr (d1, out1)"
        and rest: "read_rows g fn rows (d0 @ d1) = Inr (d, out')"
        and out: "out = out1 @ out'"
        using Cons.prems(1) unfolding row read_rows_Cons_fresh [OF False]
        by (auto split: sum.splits prod.splits)
      have "k \<noteq> k'" using False Cons.prems(2) by auto
      then have "k # cells \<in> set rows" using Cons.prems(3) by (auto simp: row)
      moreover have "k \<in> set (map fst (d0 @ d1))" using Cons.prems(2) by simp
      ultimately show ?thesis
        using Cons.IH [OF rest] by (simp add: out)
    qed
  qed
qed

lemma first_row_wins_rows:
  assumes "read_rows g fn (pre @ (k # cells) # post) [] = Inr (d, out)"
    and "\<forall>cells'. k # cells' \<notin> set pre"
  shows "\<exists>a out1. read_row g fn k (k # cells) [] = Inr ([(k, a)], out1)
           \<and> map_of d k = Some a
           \<and> length (filter (\<lambda>x. fst x = k) d) = 1
           \<and> (\<forall>cells'. k # cells' \<in> set post \<longrightarrow> ''Multiple annotations for '' @ k \<in> set out)"
proof -
  obtain d1 o1 o2 where pre: "read_rows g fn pre [] = Inr (d1, o1)"
    and rest: "read_rows g fn ((k # cells) # post) d1 = Inr (d, o2)"
    and out: "out = o1 @ o2"
    using assms(1) unfolding read_rows_append
    by (auto simp del: read_rows.simps split: sum.splits prod.splits)
  have fresh: "k \<notin> set (map fst d1)"
    using read_rows_keys [OF pre] assms(2) by auto
  obtain dk ok o3 where one: "read_row g fn k (k # cells) [] = Inr (dk, ok)"
    and post: "read_rows g fn post (d1 @ dk) = Inr (d, o3)"
    and o2: "o2 = ok @ o3"
    using rest unfolding read_rows_Cons_fresh [OF fresh]
    by (auto split: sum.splits prod.splits)
  obtain a where dk: "dk = [(k, a)]"
    using read_row_single [OF one] by auto
  obtain d' where d: "d = (d1 @ dk) @ d'"
    and new: "\<forall>k' \<in> set (map fst d'). k' \<notin> set (map fst (d1 @ dk))"
    using read_rows_keys [OF post] by blast
  have k_d': "k \<notin> set (map fst d')"
    using new by (auto simp: dk)
  have none1: "map_of d1 k = None"
    using fresh by (simp add: map_of_eq_None_iff)
  have "map_of d k = Some a"
    using none1 by (simp add: d dk map_add_def)
  moreover have "filter (\<lambda>x. fst x = k) d1 = []" "filter (\<lambda>x. fst x = k) d' = []"
    using fresh k_d' by (auto simp: filter_empty_conv)
  then have "length (filter (\<lambda>x. fst x = k) d) = 1"
    by (simp add: d dk)
  moreover have "''Multiple annotations for '' @ k \<in> set out" if "k # cells' \<in> set post" for cells'
  proof -
    have "k \<in> set (map fst (d1 @ dk))" by (simp add: dk)
    from read_rows_warns [OF post this that] show ?thesis by (simp add: out o2)
  qed
  ultimately show ?thesis
    using one dk by blast
qed

lemma read_annotations_rows:
  "read_annotations rows is_gold =
     read_rows is_gold (if is_gold then GOLD_FIELDNAMES else SYSTEM_FIELDNAMES)
       (data_rows rows is_gold) []"
  by (simp add: read_annotations_def data_rows_def Let_def)

lemma is_true_value:
  "is_true (Some value) =
     Inr (if lower value = ''true'' then (Some True, [])
          else if lower value = ''false'' then (Some False, [])
          else (None, [''Unexpected label! '' @ value]))"
  by (simp add: is_true_def)

lemma read_row_system:
  "read_row False SYSTEM_FIELDNAMES k (k # a # b # rest) [] =
     (case is_true (Some a) of
        Inl e \<Rightarrow> Inl e
      | Inr (va, oa) \<Rightarrow>
          (case is_true (Some b) of
             Inl e \<Rightarrow> Inl e
           | Inr (vb, ob) \<Rightarrow>
               Inr ([(k, \<lparr>gender = None, name_a_coref = va, name_b_coref = vb\<rparr>)], oa @ ob)))"
proof -
  have nil: "map_of [] k = (None :: Annotation option)" by simp
  show ?thesis
    unfolding read_row_def
    by (simp add: SYSTEM_FIELDNAMES_def row_get_def setattr_fresh [OF nil]
        setattr_last [OF nil, simplified] new_Annotation_def Let_def
        split: sum.splits prod.splits)
qed

lemma PRONOUNS_get_UNKNOWN: "PRONOUNS_get x = UNKNOWN \<longleftrightarrow> map_of PRONOUNS x = None"
  by (simp add: PRONOUNS_get_def PRONOUNS_def)

lemma read_row_gold:
  "read_row True GOLD_FIELDNAMES k (k # c1 # p # c3 # c4 # c5 # a # c7 # c8 # b # rest) [] =
     (case is_true (Some a) of
        Inl e \<Rightarrow> Inl e
      | Inr (va, oa) \<Rightarrow>
          (case is_true (Some b) of
             Inl e \<Rightarrow> Inl e
           | Inr (vb, ob) \<Rightarrow>
               if map_of PRONOUNS (lower p) = None then Inl AssertionError
               else Inr ([(k, \<lparr>gender = map_of PRONOUNS (lower p), name_a_coref = va,
                               name_b_coref = vb\<rparr>)], oa @ ob)))"
proof -
  have nil: "map_of [] k = (None :: Annotation option)" by simp
  have get: "map_of PRONOUNS (lower p) = Some g \<Longrightarrow> PRONOUNS_get (lower p) = g" for g
    by (simp add: PRONOUNS_get_def)
  show ?thesis
    unfolding read_row_def
    by (auto simp: GOLD_FIELDNAMES_def row_get_def setattr_fresh [OF nil]
        setattr_last [OF nil, simplified] new_Annotation_def Let_def PRONOUNS_get_UNKNOWN get
        split: sum.splits prod.splits)
qed

lemma wide3: "3 \<le> length (r :: 'a list) \<Longrightarrow> \<exists>k a b rest. r = k # a # b # rest"
  by (auto simp: eval_nat_numeral Suc_le_length_iff)

lemma wide10:
  "10 \<le> length (r :: 'a list) \<Longrightarrow>
   \<exists>k c1 p c3 c4 c5 a c7 c8 b rest. r = k # c1 # p # c3 # c4 # c5 # a # c7 # c8 # b # rest"
  by (auto simp: eval_nat_numeral Suc_le_length_iff)

lemma row_ok_system:
  assumes "3 \<le> length r"
  shows "row_ok False SYSTEM_FIELDNAMES r"
proof -
  obtain k a b rest where r: "r = k # a # b # rest"
    using wide3 [OF assms] by blast
  show ?thesis
    unfolding r row_ok_def read_alone_def
    by (simp add: read_row_system is_true_value)
qed

lemma row_ok_gold:
  assumes "10 \<le> length r"
  shows "row_ok True GOLD_FIELDNAMES r \<longleftrightarrow> pronoun_recognised r"
proof -
  obtain k c1 p c3 c4 c5 a c7 c8 b rest
    where r: "r = k # c1 # p # c3 # c4 # c5 # a # c7 # c8 # b # rest"
    using wide10 [OF assms] by blast
  have "pronoun_recognised r \<longleftrightarrow> map_of PRONOUNS (lower p) \<noteq> None"
    unfolding r pronoun_recognised_def by (simp add: row_get_def GOLD_FIELDNAMES_def)
  then show ?thesis
    unfolding r row_ok_def read_alone_def
    by (simp add: read_row_gold is_true_value)
qed

lemma row_not_ok_gold:
  assumes "\<not> pronoun_recognised r" and "r \<noteq> []"
  shows "\<not> row_ok True GOLD_FIELDNAMES r"
proof -
  obtain k cells where r: "r = k # cells" using assms(2) by (cases r) auto
  have nil: "map_of [] k = (None :: Annotation option)" by simp
  show ?thesis
    using assms(1) unfolding r row_ok_def read_alone_def pronoun_recognised_def read_row_def
    by (auto simp: PRONOUNS_get_UNKNOWN Let_def split: sum.splits prod.splits option.splits)
qed

lemma metrics_total:
  "\<exists>r p f. recall s = Inr r \<and> precision s = Inr p \<and> f1 s = Inr f"
proof -
  obtain r where r: "recall s = Inr r" using recall_value by blast
  obtain p where p: "precision s = Inr p" using precision_value by blast
  show ?thesis using r p f1_value [OF r p] by blast
qed

lemma scorecard_blocks_step:
  assumes "recall (scores_get sc g) = Inr r" and "precision (scores_get sc g) = Inr p"
    and "f1 (scores_get sc g) = Inr f"
  shows "scorecard_blocks fmt sc ((g, display_name) # rest) scorecard bias_terms =
     scorecard_blocks fmt sc rest
       (scorecard @ spec_block fmt display_name r p f (scores_get sc g)) (bias_terms(g \<mapsto> f))"
  using assms by (simp add: spec_block_def Let_def)

lemma make_scorecard_value:
  assumes "f1 (scores_get sc None) = Inr fo" "recall (scores_get sc None) = Inr ro"
    "precision (scores_get sc None) = Inr po"
    and "f1 (scores_get sc (Some MASCULINE)) = Inr fm"
    "recall (scores_get sc (Some MASCULINE)) = Inr rm"
    "precision (scores_get sc (Some MASCULINE)) = Inr pm"
    and "f1 (scores_get sc (Some FEMININE)) = Inr ff"
    "recall (scores_get sc (Some FEMININE)) = Inr rf"
    "precision (scores_get sc (Some FEMININE)) = Inr pf"
  shows "make_scorecard fmt sc =
     Inr (join NEWLINE
       (spec_block fmt ''Overall'' ro po fo (scores_get sc None) @
        spec_block fmt ''Masculine'' rm pm fm (scores_get sc (Some MASCULINE)) @
        spec_block fmt ''Feminine'' rf pf ff (scores_get sc (Some FEMININE)) @
        [''Bias (F/M): '' @ (if fm \<noteq> 0 \<and> ff \<noteq> 0 then fmt 2 (ff / fm) else ''-'') @ NEWLINE]))"
proof -
  have "scorecard_blocks fmt sc display_names [] Map.empty =
      Inr (spec_block fmt ''Overall'' ro po fo (scores_get sc None) @
           spec_block fmt ''Masculine'' rm pm fm (scores_get sc (Some MASCULINE)) @
           spec_block fmt ''Feminine'' rf pf ff (scores_get sc (Some FEMININE)),
           [None \<mapsto> fo, Some MASCULINE \<mapsto> fm, Some FEMININE \<mapsto> ff])"
    unfolding display_names_def
    by (simp only: scorecard_blocks_step [OF assms(2,3,1)] scorecard_blocks_step [OF assms(5,6,4)]
        scorecard_blocks_step [OF assms(8,9,7)] scorecard_blocks.simps(1) append_Nil append_assoc)
  then show ?thesis
    by (simp add: make_scorecard_def truediv_def)
qed

lemma make_scorecard_total: "\<exists>scorecard. make_scorecard fmt sc = Inr scorecard"
proof -
  obtain ro po fo where "recall (scores_get sc None) = Inr ro"
    "precision (scores_get sc None) = Inr po" "f1 (scores_get sc None) = Inr fo"
    using metrics_total by blast
  moreover obtain rm pm fm where "recall (scores_get sc (Some MASCULINE)) = Inr rm"
    "precision (scores_get sc (Some MASCULINE)) = Inr pm" "f1 (scores_get sc (Some MASCULINE)) = Inr fm"
    using metrics_total by blast
  moreover obtain rf pf ff where "recall (scores_get sc (Some FEMININE)) = Inr rf"
    "precision (scores_get sc (Some FEMININE)) = Inr pf" "f1 (scores_get sc (Some FEMININE)) = Inr ff"
    using metrics_total by blast
  ultimately show ?thesis
    using make_scorecard_value [of sc fo ro po fm rm pm ff rf pf fmt] by blast
qed

lemma data_rows_nonempty: "[] \<notin> set (data_rows rows is_gold)"
  by (auto simp: data_rows_def dest: in_set_dropD)

lemma first_seen_subset: "r \<in> set (first_seen seen rows) \<Longrightarrow> r \<in> set rows \<and> r \<noteq> []"
  by (induction seen rows rule: first_seen.induct) (auto split: if_splits)

lemma read_rows_nonempty:
  assumes "read_rows g fn rows [] = Inr (d, out)" and "rows \<noteq> []" and "[] \<notin> set rows"
  shows "d \<noteq> []"
proof -
  obtain k cells rest where rows: "rows = (k # cells) # rest"
    using assms(2,3) by (cases rows; cases "hd rows") auto
  have fresh: "k \<notin> set (map fst ([] :: annotations))" by simp
  obtain d1 out1 out' where one: "read_row g fn k (k # cells) [] = Inr (d1, out1)"
    and rest: "read_rows g fn rest ([] @ d1) = Inr (d, out')"
    using assms(1) unfolding rows read_rows_Cons_fresh [OF fresh]
    by (auto split: sum.splits prod.splits)
  obtain a where d1: "d1 = [(k, a)]"
    using read_row_single [OF one] by auto
  obtain d' where "d = ([] @ d1) @ d'"
    using read_rows_keys [OF rest] by blast
  then show ?thesis by (simp add: d1)
qed

lemma read_annotations_succeeds:
  assumes "\<forall>r \<in> set (first_seen [] (data_rows rows is_gold)).
      row_ok is_gold (if is_gold then GOLD_FIELDNAMES else SYSTEM_FIELDNAMES) r"
    and "data_rows rows is_gold \<noteq> []"
  shows "\<exists>d out. read_annotations rows is_gold = Inr (d, out) \<and> d \<noteq> []"
proof -
  let ?fn = "if is_gold then GOLD_FIELDNAMES else SYSTEM_FIELDNAMES"
  have "\<exists>d out. read_rows is_gold ?fn (data_rows rows is_gold) [] = Inr (d, out)"
    using assms(1) read_rows_succeeds_iff [of is_gold ?fn "data_rows rows is_gold" "[]"] by simp
  then obtain d out where r: "read_rows is_gold ?fn (data_rows rows is_gold) [] = Inr (d, out)"
    by blast
  have "d \<noteq> []"
    using read_rows_nonempty [OF r assms(2) data_rows_nonempty] .
  then show ?thesis
    using r by (simp add: read_annotations_rows)
qed

lemma read_annotations_fails:
  assumes "r \<in> set (first_seen [] (data_rows rows True))" and "\<not> pronoun_recognised r"
  shows "\<exists>e. read_annotations rows True = Inl e"
proof (cases "read_annotations rows True")
  case (Inl e)
  then show ?thesis by blast
next
  case (Inr x)
  then have "\<exists>d out. read_rows True GOLD_FIELDNAMES (data_rows rows True) [] = Inr (d, out)"
    by (cases x) (simp add: read_annotations_rows)
  then have "row_ok True GOLD_FIELDNAMES r"
    using assms(1) read_rows_succeeds_iff [of True GOLD_FIELDNAMES "data_rows rows True" "[]"]
    by simp
  moreover have "r \<noteq> []" using first_seen_subset [OF assms(1)] by simp
  ultimately show ?thesis
    using row_not_ok_gold [OF assms(2)] by blast
qed

lemmas run_files =
  read_annotations_def read_row_def row_get_def is_true_def lower_def lower_char_def
  setattr_def getitem_def contains_def PRONOUNS_get_def PRONOUNS_def GOLD_FIELDNAMES_def
  SYSTEM_FIELDNAMES_def new_Annotation_def Let_def data_rows_def

subsection \<open>Evaluating the examples\<close>





lemmas run_example =
  calculate_scores_def getitem_def score_judgment_def truthy_def Let_def scores_get_def
  new_Scores_def new_Annotation_def

section \<open>The claims about calculate\_scores\<close>

text \<open>
  C1. A judgment whose gold value is true or false and whose system value is true, false
  or absent goes to the bucket the table names: system absent, false negative; gold and
  system true, true positive; gold false and system true, false positive; both false, true
  negative; gold true and system false, false negative. It is the only bucket that
  explains the new tally. Scoring the same gold dictionary again against the system
  dictionary the first run left behind gives the same tallies.
\<close>

theorem classification_total_deterministic:
  "fst (score_judgment example_id (Some gold, system) s) = increment (spec_classify gold system) s
   \<and> (\<exists>!b. fst (score_judgment example_id (Some gold, system) s) = increment b s)
   \<and> fst (calculate_scores gold_annotations
            (fst (snd (calculate_scores gold_annotations system_annotations)))) =
       fst (calculate_scores gold_annotations system_annotations)"
proof (intro conjI)
  show table: "fst (score_judgment example_id (Some gold, system) s) =
      increment (spec_classify gold system) s"
    by (rule score_judgment_table)
  show "\<exists>!b. fst (score_judgment example_id (Some gold, system) s) = increment b s"
    unfolding table by (rule ex1I [of _ "spec_classify gold system"]) (auto dest: increment_inj)
  show "fst (calculate_scores gold_annotations
            (fst (snd (calculate_scores gold_annotations system_annotations)))) =
       fst (calculate_scores gold_annotations system_annotations)"
    by (rule calculate_scores_rerun)
qed

theorem classification_total_deterministic_witness:
  "fst (score_judgment ''1'' (Some True, Some False) new_Scores) =
     \<lparr>true_positives = 0, false_positives = 0, true_negatives = 0, false_negatives = 1\<rparr>
   \<and> fst (calculate_scores example_gold
            (fst (snd (calculate_scores example_gold example_system)))) None =
       Some \<lparr>true_positives = 1, false_positives = 2, true_negatives = 1, false_negatives = 2\<rparr>"
  using classification_total_deterministic
    [of "''1''" True "Some False" new_Scores example_gold example_system]
  by (simp add: run_example example_gold_def example_system_def)

text \<open>
  C3. When every gold annotation has a gender, each counter of the overall tally (key
  \<^verbatim>\<open>None\<close>) of the result equals the sum of that counter over the tallies of the
  genders.
\<close>

theorem overall_tally_is_gender_sum:
  assumes "\<forall>x \<in> set gold_annotations. gender (snd x) \<noteq> None"
  shows "true_positives (scores_get (fst (calculate_scores gold_annotations system_annotations)) None) =
           gender_sum true_positives (fst (calculate_scores gold_annotations system_annotations))
       \<and> false_positives (scores_get (fst (calculate_scores gold_annotations system_annotations)) None) =
           gender_sum false_positives (fst (calculate_scores gold_annotations system_annotations))
       \<and> true_negatives (scores_get (fst (calculate_scores gold_annotations system_annotations)) None) =
           gender_sum true_negatives (fst (calculate_scores gold_annotations system_annotations))
       \<and> false_negatives (scores_get (fst (calculate_scores gold_annotations system_annotations)) None) =
           gender_sum false_negatives (fst (calculate_scores gold_annotations system_annotations))"
proof -
  have start: "f (scores_get Map.empty None) = gender_sum f Map.empty" if "additive f" for f
    using that by (simp add: additive_def scores_get_def gender_sum_def)
  have "f (scores_get (fst (calculate_scores gold_annotations system_annotations)) None) =
        gender_sum f (fst (calculate_scores gold_annotations system_annotations))"
    if "additive f" for f
    unfolding calculate_scores_def
    using that assms start [OF that] by (rule score_examples_balanced)
  then show ?thesis
    by (simp add: additive_fields)
qed

theorem overall_tally_is_gender_sum_witness:
  "false_positives (scores_get (fst (calculate_scores example_gold example_system)) None) = 2
   \<and> gender_sum false_positives (fst (calculate_scores example_gold example_system)) = 2
   \<and> false_negatives (scores_get (fst (calculate_scores example_gold example_system)) None) = 2
   \<and> gender_sum false_negatives (fst (calculate_scores example_gold example_system)) = 2"
proof -
  have genders: "\<forall>x \<in> set example_gold. gender (snd x) \<noteq> None"
    by (simp add: example_gold_def)
  show ?thesis
    using overall_tally_is_gender_sum [OF genders, of example_system]
    by (simp add: run_example example_gold_def example_system_def gender_sum_def)
qed

text \<open>
  C5. A judgment whose system value is absent is tallied as a false negative and reported
  with the line \<^verbatim>\<open>Missing output for\<close> and the identifier, whatever the gold value.
  Looking up an identifier the system dictionary does not have gives an annotation with
  both judgments absent, and does not raise. Over a run, the overall false negatives are
  at least the number of absent system judgments, and the report of each of them is among
  the printed lines. \<open>calculate_scores\<close> has no exception among its results.
\<close>

theorem missing_output_is_false_negative:
  "score_judgment example_id (gold, None) s =
     (s\<lparr>false_negatives := false_negatives s + 1\<rparr>, [''Missing output for '' @ example_id])
   \<and> (map_of system_annotations example_id = None \<longrightarrow>
        fst (getitem system_annotations example_id) = new_Annotation)
   \<and> int (missing_judgments gold_annotations system_annotations) \<le>
       false_negatives (scores_get (fst (calculate_scores gold_annotations system_annotations)) None)
   \<and> ((example_id, gold_annotation) \<in> set gold_annotations \<and>
        (name_a_coref (lookup system_annotations example_id) = None \<or>
         name_b_coref (lookup system_annotations example_id) = None) \<longrightarrow>
        ''Missing output for '' @ example_id \<in>
          set (snd (snd (calculate_scores gold_annotations system_annotations))))"
proof (intro conjI impI)
  show "score_judgment example_id (gold, None) s =
     (s\<lparr>false_negatives := false_negatives s + 1\<rparr>, [''Missing output for '' @ example_id])"
    by (simp add: score_judgment_def Let_def)
  show "fst (getitem system_annotations example_id) = new_Annotation"
    if "map_of system_annotations example_id = None"
    using that by (simp add: getitem_def)
  show "int (missing_judgments gold_annotations system_annotations) \<le>
       false_negatives (scores_get (fst (calculate_scores gold_annotations system_annotations)) None)"
    using score_examples_overall_fn [of Map.empty gold_annotations system_annotations]
    by (simp add: calculate_scores_def scores_get_def new_Scores_def)
  show "''Missing output for '' @ example_id \<in>
          set (snd (snd (calculate_scores gold_annotations system_annotations)))"
    if "(example_id, gold_annotation) \<in> set gold_annotations \<and>
        (name_a_coref (lookup system_annotations example_id) = None \<or>
         name_b_coref (lookup system_annotations example_id) = None)"
  proof -
    have "0 < missing (example_pairs gold_annotation (lookup system_annotations example_id))"
      using that by (auto simp: missing_def example_pairs_def)
    then show ?thesis
      unfolding calculate_scores_def using that by (intro score_examples_warns) simp_all
  qed
qed

theorem missing_output_is_false_negative_witness:
  "map_of example_system ''2'' = None
   \<and> (''2'', \<lparr>gender = Some MASCULINE, name_a_coref = Some False, name_b_coref = Some True\<rparr>)
        \<in> set example_gold
   \<and> missing_judgments example_gold example_system = 2
   \<and> false_negatives (scores_get (fst (calculate_scores example_gold example_system)) None) = 2
   \<and> ''Missing output for 2'' \<in> set (snd (snd (calculate_scores example_gold example_system)))"
  using missing_output_is_false_negative
    [of "''2''" "Some True" new_Scores example_system example_gold
      "\<lparr>gender = Some MASCULINE, name_a_coref = Some False, name_b_coref = Some True\<rparr>"]
  by (simp add: run_example example_gold_def example_system_def lookup_def
      missing_judgments_def missing_def example_pairs_def)

text \<open>
  C9. Scoring changes the system dictionary: an identifier of the gold dictionary that the
  system dictionary lacks is a key of it afterwards, bound to an empty annotation.
\<close>

theorem calculate_scores_inserts_missing:
  assumes "(example_id, gold_annotation) \<in> set gold_annotations"
    and "map_of system_annotations example_id = None"
  shows "map_of (fst (snd (calculate_scores gold_annotations system_annotations))) example_id =
           Some new_Annotation
       \<and> fst (snd (calculate_scores gold_annotations system_annotations)) \<noteq> system_annotations"
proof -
  have "example_id \<in> fst ` set gold_annotations"
    using assms(1) by force
  then have ins: "map_of (fst (snd (calculate_scores gold_annotations system_annotations))) example_id =
      Some new_Annotation"
    using assms(2)
    by (simp add: calculate_scores_def map_of_score_examples lookup_def getitem_def)
  then show ?thesis
    using assms(2) by auto
qed

theorem calculate_scores_inserts_missing_witness:
  "fst (snd (calculate_scores example_gold example_system)) =
     example_system @ [(''2'', \<lparr>gender = None, name_a_coref = None, name_b_coref = None\<rparr>)]
   \<and> fst (snd (calculate_scores example_gold example_system)) \<noteq> example_system"
proof -
  have present: "(''2'', \<lparr>gender = Some MASCULINE, name_a_coref = Some False,
      name_b_coref = Some True\<rparr>) \<in> set example_gold"
    by (simp add: example_gold_def)
  have absent: "map_of example_system ''2'' = None"
    by (simp add: example_system_def)
  show ?thesis
    using calculate_scores_inserts_missing [OF present absent]
    by (simp add: run_example example_gold_def example_system_def)
qed

text \<open>
  C10. A gold value \<^verbatim>\<open>None\<close> is scored as the gold value false: with a system value
  true the judgment is a false positive, with a system value false a true negative, and
  nothing is printed. Over a run, replacing every gold judgment by its truth value changes
  neither the tallies nor the printed lines.
\<close>

theorem gold_None_scored_as_false:
  "score_judgment example_id (None, Some True) s =
     (s\<lparr>false_positives := false_positives s + 1\<rparr>, [])
   \<and> score_judgment example_id (None, Some False) s =
     (s\<lparr>true_negatives := true_negatives s + 1\<rparr>, [])
   \<and> score_judgment example_id (None, system) s = score_judgment example_id (Some False, system) s
   \<and> calculate_scores (map (apsnd normalise_gold) gold_annotations) system_annotations =
       calculate_scores gold_annotations system_annotations"
  by (simp add: score_judgment_def truthy_def Let_def calculate_scores_def score_examples_normalise)

theorem gold_None_scored_as_false_witness:
  "fst (calculate_scores
         [(''3'', \<lparr>gender = Some MASCULINE, name_a_coref = None, name_b_coref = None\<rparr>)]
         [(''3'', \<lparr>gender = None, name_a_coref = Some True, name_b_coref = Some False\<rparr>)])
     (Some MASCULINE) =
     Some \<lparr>true_positives = 0, false_positives = 1, true_negatives = 1, false_negatives = 0\<rparr>
   \<and> snd (snd (calculate_scores
         [(''3'', \<lparr>gender = Some MASCULINE, name_a_coref = None, name_b_coref = None\<rparr>)]
         [(''3'', \<lparr>gender = None, name_a_coref = Some True, name_b_coref = Some False\<rparr>)])) = []"
  using gold_None_scored_as_false
    [of "''3''" new_Scores "Some True"
      "[(''3'', \<lparr>gender = Some MASCULINE, name_a_coref = None, name_b_coref = None\<rparr>)]"
      "[(''3'', \<lparr>gender = None, name_a_coref = Some True, name_b_coref = Some False\<rparr>)]"]
  by (simp add: run_example)

section \<open>The claim about aborted runs\<close>

text \<open>
  The claim C4 as it is stated fails: a gold row whose identifier was seen before is
  skipped before its pronoun is looked at, so an unknown pronoun in such a row does not
  abort the read, and the run returns a scorecard.
\<close>

theorem duplicate_unknown_pronoun_counterexample:
  "data_rows duplicate_gold_tsv True =
     [[''1'', ''text'', ''she'', ''0'', ''Ann'', ''1'', ''TRUE'', ''Bea'', ''2'', ''FALSE'', ''url''],
      [''1'', ''text'', ''it'', ''0'', ''Ann'', ''1'', ''FALSE'', ''Bea'', ''2'', ''TRUE'', ''url'']]
   \<and> map_of PRONOUNS (lower ''it'') = None
   \<and> read_annotations duplicate_gold_tsv True =
       Inr ([(''1'', \<lparr>gender = Some FEMININE, name_a_coref = Some True, name_b_coref = Some False\<rparr>)],
            [''Multiple annotations for 1''])
   \<and> (\<exists>scorecard. run_scorer fixed_point duplicate_gold_tsv example_system_tsv =
         Inr (scorecard, [''Multiple annotations for 1'']))"
proof -
  have rd: "read_annotations duplicate_gold_tsv True =
       Inr ([(''1'', \<lparr>gender = Some FEMININE, name_a_coref = Some True, name_b_coref = Some False\<rparr>)],
            [''Multiple annotations for 1''])"
    by (simp add: run_files example_gold_tsv_def example_system_tsv_def duplicate_gold_tsv_def)
  have rs: "read_annotations example_system_tsv False =
       Inr ([(''1'', \<lparr>gender = None, name_a_coref = Some True, name_b_coref = Some False\<rparr>)], [])"
    by (simp add: run_files example_gold_tsv_def example_system_tsv_def duplicate_gold_tsv_def)
  have cs: "snd (snd (calculate_scores
      [(''1'', \<lparr>gender = Some FEMININE, name_a_coref = Some True, name_b_coref = Some False\<rparr>)]
      [(''1'', \<lparr>gender = None, name_a_coref = Some True, name_b_coref = Some False\<rparr>)])) = []"
    by (simp add: run_example)
  obtain card where "make_scorecard fixed_point (fst (calculate_scores
      [(''1'', \<lparr>gender = Some FEMININE, name_a_coref = Some True, name_b_coref = Some False\<rparr>)]
      [(''1'', \<lparr>gender = None, name_a_coref = Some True, name_b_coref = Some False\<rparr>)])) = Inr card"
    using make_scorecard_total by blast
  then have "\<exists>scorecard. run_scorer fixed_point duplicate_gold_tsv example_system_tsv =
         Inr (scorecard, [''Multiple annotations for 1''])"
    using cs by (simp add: run_scorer_def rd rs split_def)
  moreover have "data_rows duplicate_gold_tsv True =
     [[''1'', ''text'', ''she'', ''0'', ''Ann'', ''1'', ''TRUE'', ''Bea'', ''2'', ''FALSE'', ''url''],
      [''1'', ''text'', ''it'', ''0'', ''Ann'', ''1'', ''FALSE'', ''Bea'', ''2'', ''TRUE'', ''url'']]"
    by (simp add: run_files example_gold_tsv_def example_system_tsv_def duplicate_gold_tsv_def)
  moreover have "map_of PRONOUNS (lower ''it'') = None"
    by (simp add: run_files example_gold_tsv_def example_system_tsv_def duplicate_gold_tsv_def)
  ultimately show ?thesis using rd by blast
qed

text \<open>
  C4, amended. \<open>run_scorer\<close> ends with an assertion failure whenever \<open>read_annotations\<close>
  returns an empty dictionary for the gold file or for the system file. Reading the gold
  file raises when a data row that is not skipped as a repeated identifier has a pronoun
  that, in lower case, is not in the pronoun table. For files whose data rows have every
  column of their schema, in all other cases a scorecard is returned.
\<close>

theorem run_scorer_aborts_or_returns:
  "(read_annotations gold_tsv True = Inr ([], out1) \<longrightarrow>
      run_scorer fmt gold_tsv system_tsv = Inl AssertionError)
   \<and> (read_annotations gold_tsv True = Inr (gold_annotations, out1) \<and>
       read_annotations system_tsv False = Inr ([], out2) \<longrightarrow>
      run_scorer fmt gold_tsv system_tsv = Inl AssertionError)
   \<and> ((\<exists>row \<in> set (first_seen [] (data_rows gold_tsv True)). \<not> pronoun_recognised row) \<longrightarrow>
      (\<exists>e. read_annotations gold_tsv True = Inl e) \<and>
      (\<exists>e. run_scorer fmt gold_tsv system_tsv = Inl e))
   \<and> (well_formed gold_tsv True \<and> well_formed system_tsv False \<and>
       data_rows gold_tsv True \<noteq> [] \<and> data_rows system_tsv False \<noteq> [] \<and>
       (\<forall>row \<in> set (first_seen [] (data_rows gold_tsv True)). pronoun_recognised row) \<longrightarrow>
      (\<exists>scorecard out. run_scorer fmt gold_tsv system_tsv = Inr (scorecard, out)))"
proof (intro conjI impI)
  show "run_scorer fmt gold_tsv system_tsv = Inl AssertionError"
    if "read_annotations gold_tsv True = Inr ([], out1)"
    using that by (simp add: run_scorer_def)
  show "run_scorer fmt gold_tsv system_tsv = Inl AssertionError"
    if "read_annotations gold_tsv True = Inr (gold_annotations, out1) \<and>
        read_annotations system_tsv False = Inr ([], out2)"
    using that by (simp add: run_scorer_def)
  assume bad: "\<exists>row \<in> set (first_seen [] (data_rows gold_tsv True)). \<not> pronoun_recognised row"
  then obtain e where e: "read_annotations gold_tsv True = Inl e"
    using read_annotations_fails by blast
  then show "\<exists>e. read_annotations gold_tsv True = Inl e" by blast
  show "\<exists>e. run_scorer fmt gold_tsv system_tsv = Inl e"
    using e by (simp add: run_scorer_def)
next
  assume ok: "well_formed gold_tsv True \<and> well_formed system_tsv False \<and>
       data_rows gold_tsv True \<noteq> [] \<and> data_rows system_tsv False \<noteq> [] \<and>
       (\<forall>row \<in> set (first_seen [] (data_rows gold_tsv True)). pronoun_recognised row)"
  have "\<forall>r \<in> set (first_seen [] (data_rows gold_tsv True)).
      row_ok True (if True then GOLD_FIELDNAMES else SYSTEM_FIELDNAMES) r"
  proof
    fix r assume r: "r \<in> set (first_seen [] (data_rows gold_tsv True))"
    then have "r \<in> set (data_rows gold_tsv True)" using first_seen_subset by blast
    then have "10 \<le> length r"
      using ok by (auto simp: well_formed_def GOLD_FIELDNAMES_def)
    then show "row_ok True (if True then GOLD_FIELDNAMES else SYSTEM_FIELDNAMES) r"
      using ok r by (simp add: row_ok_gold)
  qed
  then obtain g o1 where g: "read_annotations gold_tsv True = Inr (g, o1)" "g \<noteq> []"
    using read_annotations_succeeds [of gold_tsv True] ok by blast
  have "\<forall>r \<in> set (first_seen [] (data_rows system_tsv False)).
      row_ok False (if False then GOLD_FIELDNAMES else SYSTEM_FIELDNAMES) r"
  proof
    fix r assume r: "r \<in> set (first_seen [] (data_rows system_tsv False))"
    then have "r \<in> set (data_rows system_tsv False)" using first_seen_subset by blast
    then have "3 \<le> length r"
      using ok by (auto simp: well_formed_def SYSTEM_FIELDNAMES_def)
    then show "row_ok False (if False then GOLD_FIELDNAMES else SYSTEM_FIELDNAMES) r"
      by (simp add: row_ok_system)
  qed
  then obtain s o2 where s: "read_annotations system_tsv False = Inr (s, o2)" "s \<noteq> []"
    using read_annotations_succeeds [of system_tsv False] ok by blast
  obtain sc s' o3 where c: "calculate_scores g s = (sc, s', o3)"
    by (cases "calculate_scores g s") auto
  obtain card where "make_scorecard fmt sc = Inr card"
    using make_scorecard_total by blast
  then have "run_scorer fmt gold_tsv system_tsv = Inr (card, o1 @ o2 @ o3)"
    using g s c by (simp add: run_scorer_def)
  then show "\<exists>scorecard out. run_scorer fmt gold_tsv system_tsv = Inr (scorecard, out)"
    by blast
qed

theorem run_scorer_aborts_or_returns_witness:
  "read_annotations [GOLD_FIELDNAMES] True = Inr ([], [])
   \<and> run_scorer fixed_point [GOLD_FIELDNAMES] example_system_tsv = Inl AssertionError
   \<and> run_scorer fixed_point example_gold_tsv [] = Inl AssertionError
   \<and> (\<exists>scorecard out. run_scorer fixed_point example_gold_tsv example_system_tsv =
         Inr (scorecard, out))"
proof -
  have empty: "read_annotations [GOLD_FIELDNAMES] True = Inr ([], [])"
    by (simp add: run_files example_gold_tsv_def example_system_tsv_def
      pronoun_recognised_def well_formed_def)
  have gold: "read_annotations example_gold_tsv True =
      Inr ([(''1'', \<lparr>gender = Some FEMININE, name_a_coref = Some True, name_b_coref = Some False\<rparr>)], [])"
    by (simp add: run_files example_gold_tsv_def example_system_tsv_def
      pronoun_recognised_def well_formed_def)
  have none: "read_annotations [] False = Inr ([], [])"
    by (simp add: run_files example_gold_tsv_def example_system_tsv_def
      pronoun_recognised_def well_formed_def)
  have ok: "well_formed example_gold_tsv True \<and> well_formed example_system_tsv False \<and>
       data_rows example_gold_tsv True \<noteq> [] \<and> data_rows example_system_tsv False \<noteq> [] \<and>
       (\<forall>row \<in> set (first_seen [] (data_rows example_gold_tsv True)). pronoun_recognised row)"
    by (simp add: run_files example_gold_tsv_def example_system_tsv_def
      pronoun_recognised_def well_formed_def)
  show ?thesis
    using run_scorer_aborts_or_returns
      [of "[GOLD_FIELDNAMES]" "[]" fixed_point example_system_tsv "[]" "[]"]
      run_scorer_aborts_or_returns
      [of example_gold_tsv "[]" fixed_point "[]"
        "[(''1'', \<lparr>gender = Some FEMININE, name_a_coref = Some True, name_b_coref = Some False\<rparr>)]" "[]"]
      run_scorer_aborts_or_returns
      [of example_gold_tsv "[]" fixed_point example_system_tsv "[]" "[]"]
      empty gold none ok
    by simp
qed

section \<open>The claims about read\_annotations\<close>

text \<open>
  C6. A coref field parses to true exactly when its lower-cased value is \<^verbatim>\<open>true\<close>, to
  false exactly when it is \<^verbatim>\<open>false\<close>, and otherwise to \<^verbatim>\<open>None\<close> with the line
  \<^verbatim>\<open>Unexpected label!\<close> and the value; parsing a string never raises. A row with a new
  identifier is recorded with the two parsed values whatever they are: in a system file
  always, in a gold file unless the pronoun is unknown. A system file whose rows have their
  three columns is read without an exception, whatever its coref fields hold.
\<close>

theorem coref_field_parsing:
  "(is_true (Some value) = Inr (Some True, []) \<longleftrightarrow> lower value = ''true'')
   \<and> (is_true (Some value) = Inr (Some False, []) \<longleftrightarrow> lower value = ''false'')
   \<and> (is_true (Some value) = Inr (None, [''Unexpected label! '' @ value]) \<longleftrightarrow>
        lower value \<noteq> ''true'' \<and> lower value \<noteq> ''false'')
   \<and> (\<exists>va oa vb ob.
        is_true (Some a) = Inr (va, oa) \<and> is_true (Some b) = Inr (vb, ob) \<and>
        (map_of d k = None \<longrightarrow>
         read_row False SYSTEM_FIELDNAMES k (k # a # b # cells) d =
           Inr (d @ [(k, \<lparr>gender = None, name_a_coref = va, name_b_coref = vb\<rparr>)], oa @ ob)) \<and>
        (map_of d k = None \<longrightarrow>
         read_row True GOLD_FIELDNAMES k (k # c1 # p # c3 # c4 # c5 # a # c7 # c8 # b # cells) d =
           (if map_of PRONOUNS (lower p) = None then Inl AssertionError
            else Inr (d @ [(k, \<lparr>gender = map_of PRONOUNS (lower p), name_a_coref = va,
                                 name_b_coref = vb\<rparr>)], oa @ ob))))
   \<and> ((\<forall>row \<in> set rows. row = [] \<or> 3 \<le> length row) \<longrightarrow>
        (\<exists>annotations out. read_annotations rows False = Inr (annotations, out)))"
proof (intro conjI)
  show "is_true (Some value) = Inr (Some True, []) \<longleftrightarrow> lower value = ''true''"
    by (simp add: is_true_value)
  show "is_true (Some value) = Inr (Some False, []) \<longleftrightarrow> lower value = ''false''"
    by (auto simp: is_true_value)
  show "is_true (Some value) = Inr (None, [''Unexpected label! '' @ value]) \<longleftrightarrow>
        lower value \<noteq> ''true'' \<and> lower value \<noteq> ''false''"
    by (simp add: is_true_value)
  obtain va oa where a: "is_true (Some a) = Inr (va, oa)"
    by (cases "is_true (Some a)") (auto simp: is_true_value)
  obtain vb ob where b: "is_true (Some b) = Inr (vb, ob)"
    by (cases "is_true (Some b)") (auto simp: is_true_value)
  have sys: "read_row False SYSTEM_FIELDNAMES k (k # a # b # cells) d =
           Inr (d @ [(k, \<lparr>gender = None, name_a_coref = va, name_b_coref = vb\<rparr>)], oa @ ob)"
    if "map_of d k = None"
    unfolding read_row_fresh [OF that] read_row_system by (simp add: a b)
  have gold: "read_row True GOLD_FIELDNAMES k (k # c1 # p # c3 # c4 # c5 # a # c7 # c8 # b # cells) d =
           (if map_of PRONOUNS (lower p) = None then Inl AssertionError
            else Inr (d @ [(k, \<lparr>gender = map_of PRONOUNS (lower p), name_a_coref = va,
                                 name_b_coref = vb\<rparr>)], oa @ ob))"
    if "map_of d k = None"
    unfolding read_row_fresh [OF that] read_row_gold by (simp add: a b)
  show "\<exists>va oa vb ob.
        is_true (Some a) = Inr (va, oa) \<and> is_true (Some b) = Inr (vb, ob) \<and>
        (map_of d k = None \<longrightarrow>
         read_row False SYSTEM_FIELDNAMES k (k # a # b # cells) d =
           Inr (d @ [(k, \<lparr>gender = None, name_a_coref = va, name_b_coref = vb\<rparr>)], oa @ ob)) \<and>
        (map_of d k = None \<longrightarrow>
         read_row True GOLD_FIELDNAMES k (k # c1 # p # c3 # c4 # c5 # a # c7 # c8 # b # cells) d =
           (if map_of PRONOUNS (lower p) = None then Inl AssertionError
            else Inr (d @ [(k, \<lparr>gender = map_of PRONOUNS (lower p), name_a_coref = va,
                                 name_b_coref = vb\<rparr>)], oa @ ob)))"
    by (rule exI [of _ va], rule exI [of _ oa], rule exI [of _ vb], rule exI [of _ ob])
      (simp add: a b sys gold)
  show "(\<forall>row \<in> set rows. row = [] \<or> 3 \<le> length row) \<longrightarrow>
        (\<exists>annotations out. read_annotations rows False = Inr (annotations, out))"
  proof
    assume wide: "\<forall>row \<in> set rows. row = [] \<or> 3 \<le> length row"
    have "\<forall>r \<in> set (first_seen (map fst ([] :: annotations)) (data_rows rows False)).
        row_ok False SYSTEM_FIELDNAMES r"
    proof
      fix r assume "r \<in> set (first_seen (map fst ([] :: annotations)) (data_rows rows False))"
      then have "r \<in> set (data_rows rows False)" using first_seen_subset by simp
      then have "3 \<le> length r" using wide by (auto simp: data_rows_def)
      then show "row_ok False SYSTEM_FIELDNAMES r" by (rule row_ok_system)
    qed
    then show "\<exists>annotations out. read_annotations rows False = Inr (annotations, out)"
      unfolding read_rows_succeeds_iff [symmetric] by (simp add: read_annotations_rows)
  qed
qed

theorem coref_field_parsing_witness:
  "is_true (Some ''TRUE'') = Inr (Some True, [])
   \<and> is_true (Some ''False'') = Inr (Some False, [])
   \<and> is_true (Some ''maybe'') = Inr (None, [''Unexpected label! maybe''])
   \<and> read_annotations [[''1'', ''TRUE'', ''maybe'']] False =
       Inr ([(''1'', \<lparr>gender = None, name_a_coref = Some True, name_b_coref = None\<rparr>)],
            [''Unexpected label! maybe''])
   \<and> fst (calculate_scores
        [(''1'', \<lparr>gender = Some FEMININE, name_a_coref = Some True, name_b_coref = Some False\<rparr>)]
        [(''1'', \<lparr>gender = None, name_a_coref = Some True, name_b_coref = None\<rparr>)]) None =
       Some \<lparr>true_positives = 1, false_positives = 0, true_negatives = 0, false_negatives = 1\<rparr>"
  using coref_field_parsing
    [of "''maybe''" "''TRUE''" "''maybe''" "[]" "''1''" "[]" "[]" "[]" "[]" "[]" "[]" "[]" "[]"
      "[[''1'', ''TRUE'', ''maybe'']]"]
  by (simp add: run_files run_example)

text \<open>
  C7. When a file is read without an exception, the annotation kept for an identifier is
  the one its first row gives when read alone; the identifier is a key once; and every later
  row with that identifier is reported with the line \<^verbatim>\<open>Multiple annotations for\<close> and
  the identifier.
\<close>

theorem first_row_wins:
  assumes "read_annotations rows is_gold = Inr (annotations, out)"
    and "data_rows rows is_gold = pre @ (k # cells) # post"
    and "\<forall>cells'. k # cells' \<notin> set pre"
  shows "\<exists>a out1.
           read_row is_gold (if is_gold then GOLD_FIELDNAMES else SYSTEM_FIELDNAMES) k (k # cells) [] =
             Inr ([(k, a)], out1)
           \<and> map_of annotations k = Some a
           \<and> length (filter (\<lambda>x. fst x = k) annotations) = 1
           \<and> (\<forall>cells'. k # cells' \<in> set post \<longrightarrow>
                ''Multiple annotations for '' @ k \<in> set out)"
proof -
  have "read_rows is_gold (if is_gold then GOLD_FIELDNAMES else SYSTEM_FIELDNAMES)
      (pre @ (k # cells) # post) [] = Inr (annotations, out)"
    using assms(1,2) by (simp add: read_annotations_rows)
  from first_row_wins_rows [OF this assms(3)] show ?thesis .
qed

theorem first_row_wins_witness:
  "read_annotations duplicate_system_tsv False =
     Inr ([(''1'', \<lparr>gender = None, name_a_coref = Some True, name_b_coref = None\<rparr>),
           (''2'', \<lparr>gender = None, name_a_coref = Some False, name_b_coref = Some False\<rparr>)],
          [''Unexpected label! maybe'', ''Multiple annotations for 1''])
   \<and> read_row False SYSTEM_FIELDNAMES ''1'' [''1'', ''TRUE'', ''maybe''] [] =
     Inr ([(''1'', \<lparr>gender = None, name_a_coref = Some True, name_b_coref = None\<rparr>)],
          [''Unexpected label! maybe''])"
proof -
  have r: "read_annotations duplicate_system_tsv False =
     Inr ([(''1'', \<lparr>gender = None, name_a_coref = Some True, name_b_coref = None\<rparr>),
           (''2'', \<lparr>gender = None, name_a_coref = Some False, name_b_coref = Some False\<rparr>)],
          [''Unexpected label! maybe'', ''Multiple annotations for 1''])"
    by (simp add: run_files duplicate_system_tsv_def)
  have d: "data_rows duplicate_system_tsv False =
      [] @ [''1'', ''TRUE'', ''maybe''] # [[''2'', ''false'', ''False''], [''1'', ''FALSE'', ''TRUE'']]"
    by (simp add: run_files duplicate_system_tsv_def)
  have f: "\<forall>cells'. ''1'' # cells' \<notin> set ([] :: string list list)"
    by simp
  show ?thesis
    using first_row_wins [OF r d f] r by (simp add: run_files duplicate_system_tsv_def)
qed

section \<open>The claim about make\_scorecard\<close>



end
